theory Spec2Isabelle
  imports Complex_Main "HOL-Library.List_Lexorder"
begin

section \<open>Python values and exceptions\<close>

text \<open>
  A Python \<open>str\<close> is a sequence of Unicode code points, compared lexicographically by code
  point (the order of \<open>HOL-Library.List_Lexorder\<close> on \<open>nat list\<close>); \<open>bytes\<close> is a
  sequence of 8-bit values, for which HOL's \<open>char\<close> is used.
\<close>

type_synonym pystr = "nat list"
type_synonym bytes = "char list"

text \<open>An ASCII literal as a Python \<open>str\<close>: one code point for each character.\<close>

definition ascii :: "string \<Rightarrow> pystr" where
  "ascii s = map of_char s"

text \<open>
  The exception classes that the modelled code raises or names in a handler. The last
  constructor is no exception: \<open>SIGBUS\<close> is the signal that kills the process when a page
  of a memory mapping cannot be read. It stands on the side of the exceptions because it
  ends a call without a result; no handler matches it, and no \<open>finally\<close> block runs
  after it.
\<close>

datatype pyerr =
    FileNotFoundError
  | PermissionError
  | ConnectionRefusedError
  | ConnectionResetError
  | BrokenPipeError
  | SocketTimeout
  | GaiError
  | SSLError
  | OSError
  | UnicodeEncodeError
  | UnicodeDecodeError
  | ValueError
  | TypeError
  | IndexError
  | RuntimeError
  | TimeoutExpired
  | SubprocessError
  | OverflowError
  | MemoryError
  | SIGBUS

text \<open>\<open>isinstance(e, OSError)\<close>, following the class hierarchy of the standard library.\<close>

fun is_OSError :: "pyerr \<Rightarrow> bool" where
  "is_OSError FileNotFoundError = True"
| "is_OSError PermissionError = True"
| "is_OSError ConnectionRefusedError = True"
| "is_OSError ConnectionResetError = True"
| "is_OSError BrokenPipeError = True"
| "is_OSError SocketTimeout = True"
| "is_OSError GaiError = True"
| "is_OSError SSLError = True"
| "is_OSError OSError = True"
| "is_OSError _ = False"

fun is_ValueError :: "pyerr \<Rightarrow> bool" where
  "is_ValueError UnicodeEncodeError = True"
| "is_ValueError UnicodeDecodeError = True"
| "is_ValueError ValueError = True"
| "is_ValueError _ = False"

fun is_SubprocessError :: "pyerr \<Rightarrow> bool" where
  "is_SubprocessError TimeoutExpired = True"
| "is_SubprocessError SubprocessError = True"
| "is_SubprocessError _ = False"

text \<open>
  The values a Python list handed to \<open>binary_search_sorted\<close> may hold. The annotation says
  \<open>List[str]\<close>, which Python does not enforce; integers and \<open>None\<close> stand for the values
  that do not compare with a \<open>str\<close>.
\<close>

datatype pyval = PStr pystr | PInt int | PNone

text \<open>\<open>a < b\<close>: defined between two strings and between two integers, \<open>TypeError\<close> otherwise.\<close>

fun py_lt :: "pyval \<Rightarrow> pyval \<Rightarrow> pyerr + bool" where
  "py_lt (PStr a) (PStr b) = Inr (a < b)"
| "py_lt (PInt a) (PInt b) = Inr (a < b)"
| "py_lt _ _ = Inl TypeError"

text \<open>\<open>xs[i]\<close> for a non-negative index: \<open>IndexError\<close> out of range.\<close>

definition py_getitem :: "'a list \<Rightarrow> nat \<Rightarrow> pyerr + 'a" where
  "py_getitem xs i = (if i < length xs then Inr (xs ! i) else Inl IndexError)"

section \<open>search\_algorithms.py: binary search\<close>

text \<open>
  \<open>bisect.bisect_left(a, x)\<close> of the standard library:
  \<^verbatim>\<open>
    lo, hi = 0, len(a)
    while lo < hi:
        mid = (lo + hi) // 2
        if a[mid] < x: lo = mid + 1
        else: hi = mid
    return lo
  \<close>
\<close>

function bisect_left_loop :: "pyval list \<Rightarrow> pyval \<Rightarrow> nat \<Rightarrow> nat \<Rightarrow> pyerr + nat" where
  "bisect_left_loop a x lo hi =
     (if lo < hi then
        (case py_getitem a ((lo + hi) div 2) of
           Inl e \<Rightarrow> Inl e
         | Inr v \<Rightarrow>
             (case py_lt v x of
                Inl e \<Rightarrow> Inl e
              | Inr b \<Rightarrow>
                  if b then bisect_left_loop a x ((lo + hi) div 2 + 1) hi
                  else bisect_left_loop a x lo ((lo + hi) div 2)))
      else Inr lo)"
  by pat_completeness auto
termination
  by (relation "measure (\<lambda>(a, x, lo, hi). hi - lo)") auto

declare bisect_left_loop.simps [simp del]

definition bisect_left :: "pyval list \<Rightarrow> pyval \<Rightarrow> pyerr + nat" where
  "bisect_left a x = bisect_left_loop a x 0 (length a)"

text \<open>The body of the \<open>try\<close> block of \<open>binary_search_sorted\<close>.\<close>

definition binary_search_body :: "pyval list \<Rightarrow> pyval \<Rightarrow> pyerr + bool" where
  "binary_search_body lines needle =
     (case bisect_left lines needle of
        Inl e \<Rightarrow> Inl e
      | Inr i \<Rightarrow>
          if i \<noteq> length lines then
            (case py_getitem lines i of
               Inl e \<Rightarrow> Inl e
             | Inr v \<Rightarrow> Inr (v = needle))
          else Inr False)"

text \<open>\<open>binary_search_sorted\<close>: the body under \<open>except TypeError\<close> and \<open>except IndexError\<close>.\<close>

definition binary_search_sorted :: "pyval list \<Rightarrow> pyval \<Rightarrow> pyerr + bool" where
  "binary_search_sorted lines needle =
     (case binary_search_body lines needle of
        Inr b \<Rightarrow> Inr b
      | Inl e \<Rightarrow>
          if e = TypeError then Inr False
          else if e = IndexError then Inr False
          else Inl e)"

section \<open>Text: encoding, decoding, stripping, lines\<close>

text \<open>
  \<open>s.encode("utf-8")\<close>: one to four bytes for each code point; a surrogate code point
  (U+D800 to U+DFFF) cannot be encoded and raises \<open>UnicodeEncodeError\<close>. The code points
  of a Python \<open>str\<close> are below \<open>0x110000\<close>.
\<close>

definition is_surrogate :: "nat \<Rightarrow> bool" where
  "is_surrogate c \<longleftrightarrow> 0xD800 \<le> c \<and> c \<le> 0xDFFF"

definition utf8_encode_cp :: "nat \<Rightarrow> bytes" where
  "utf8_encode_cp c =
     (if c < 0x80 then [char_of c]
      else if c < 0x800 then [char_of (0xC0 + c div 64), char_of (0x80 + c mod 64)]
      else if c < 0x10000 then
        [char_of (0xE0 + c div 4096), char_of (0x80 + (c div 64) mod 64), char_of (0x80 + c mod 64)]
      else
        [char_of (0xF0 + c div 262144), char_of (0x80 + (c div 4096) mod 64),
         char_of (0x80 + (c div 64) mod 64), char_of (0x80 + c mod 64)])"

definition utf8_encode :: "pystr \<Rightarrow> pyerr + bytes" where
  "utf8_encode s =
     (if list_ex is_surrogate s then Inl UnicodeEncodeError
      else Inr (concat (map utf8_encode_cp s)))"

text \<open>
  \<open>b.decode("utf-8", errors="replace")\<close>, on the byte values. It never raises: an invalid
  start byte, a byte sequence cut off by the end of the data and a start byte followed by
  an invalid continuation are each replaced by one U+FFFD, and decoding goes on behind the
  replaced bytes (behind the start byte and the continuation bytes accepted so far).
\<close>

definition is_cont :: "nat \<Rightarrow> bool" where
  "is_cont b \<longleftrightarrow> 0x80 \<le> b \<and> b < 0xC0"

fun decode_replace :: "nat list \<Rightarrow> pystr" where
  "decode_replace [] = []"
| "decode_replace (b # bs) =
     (if b < 0x80 then b # decode_replace bs
      else if b < 0xC2 then 0xFFFD # decode_replace bs
      else if b < 0xE0 then
        (case bs of
           [] \<Rightarrow> [0xFFFD]
         | b2 # r2 \<Rightarrow>
             if is_cont b2 then ((b - 0xC0) * 64 + (b2 - 0x80)) # decode_replace r2
             else 0xFFFD # decode_replace bs)
      else if b < 0xF0 then
        (case bs of
           [] \<Rightarrow> [0xFFFD]
         | b2 # r2 \<Rightarrow>
             if \<not> is_cont b2 \<or> (if b2 < 0xA0 then b = 0xE0 else b = 0xED)
             then 0xFFFD # decode_replace bs
             else
               (case r2 of
                  [] \<Rightarrow> [0xFFFD]
                | b3 # r3 \<Rightarrow>
                    if is_cont b3
                    then ((b - 0xE0) * 4096 + (b2 - 0x80) * 64 + (b3 - 0x80)) # decode_replace r3
                    else 0xFFFD # decode_replace r2))
      else if b < 0xF5 then
        (case bs of
           [] \<Rightarrow> [0xFFFD]
         | b2 # r2 \<Rightarrow>
             if \<not> is_cont b2 \<or> (if b2 < 0x90 then b = 0xF0 else b = 0xF4)
             then 0xFFFD # decode_replace bs
             else
               (case r2 of
                  [] \<Rightarrow> [0xFFFD]
                | b3 # r3 \<Rightarrow>
                    if \<not> is_cont b3 then 0xFFFD # decode_replace r2
                    else
                      (case r3 of
                         [] \<Rightarrow> [0xFFFD]
                       | b4 # r4 \<Rightarrow>
                           if is_cont b4
                           then ((b - 0xF0) * 262144 + (b2 - 0x80) * 4096 + (b3 - 0x80) * 64
                                 + (b4 - 0x80)) # decode_replace r4
                           else 0xFFFD # decode_replace r3)))
      else 0xFFFD # decode_replace bs)"

definition utf8_decode :: "bytes \<Rightarrow> pystr" where
  "utf8_decode bs = decode_replace (map of_char bs)"

text \<open>\<open>s.rstrip(chars)\<close>, for \<open>str\<close> and for \<open>bytes\<close>: the trailing elements in \<open>chars\<close> go.\<close>

definition rstrip :: "'a list \<Rightarrow> 'a list \<Rightarrow> 'a list" where
  "rstrip chars s = rev (dropWhile (\<lambda>c. c \<in> set chars) (rev s))"

text \<open>
  \<open>haystack.find(sub)\<close> of \<open>bytes\<close> and \<open>mmap\<close>: the lowest index at which \<open>sub\<close> starts,
  \<open>-1\<close> when it occurs nowhere; \<open>sub in haystack\<close> is \<open>find\<close> not returning \<open>-1\<close>.
\<close>

fun find_from :: "nat \<Rightarrow> bytes \<Rightarrow> bytes \<Rightarrow> int" where
  "find_from i [] sub = (if sub = [] then int i else - 1)"
| "find_from i (b # bs) sub =
     (if take (length sub) (b # bs) = sub then int i else find_from (Suc i) bs sub)"

definition bytes_find :: "bytes \<Rightarrow> bytes \<Rightarrow> int" where
  "bytes_find haystack sub = find_from 0 haystack sub"

definition bytes_contains :: "bytes \<Rightarrow> bytes \<Rightarrow> bool" where
  "bytes_contains sub haystack \<longleftrightarrow> bytes_find haystack sub \<noteq> - 1"

text \<open>
  Iterating a file opened in text mode (\<open>for line in f\<close>, universal newlines): the text is
  cut behind each line end, and the line ends \<open>\n\<close>, \<open>\r\n\<close> and \<open>\r\<close> all arrive as
  \<open>\n\<close>; a last line without a line end arrives as it is.
\<close>

fun readlines :: "pystr \<Rightarrow> pystr list" where
  "readlines [] = []"
| "readlines (c # cs) =
     (if c = 10 then [10] # readlines cs
      else if c = 13 then
        (case cs of
           [] \<Rightarrow> [[10]]
         | c2 # cs2 \<Rightarrow> if c2 = 10 then [10] # readlines cs2 else [10] # readlines cs)
      else
        (case readlines cs of
           [] \<Rightarrow> [[c]]
         | l # ls \<Rightarrow> (c # l) # ls))"

section \<open>The file system and the process table, as the code sees them\<close>

text \<open>
  The errors of the operating system, and the Python exception each one is raised as.
\<close>

datatype oserr = ENOENT | EACCES | EIO

fun raise_os :: "oserr \<Rightarrow> pyerr" where
  "raise_os ENOENT = FileNotFoundError"
| "raise_os EACCES = PermissionError"
| "raise_os EIO = OSError"

text \<open>
  What a path answers to the calls the code makes on it: \<open>os.path.exists\<close>,
  \<open>os.path.getsize\<close>, and opening it and reading it (in text mode), or opening and
  mapping it (in binary mode under \<open>mmap\<close>). They are independent, as they are separate
  system calls on a file that may change in between. A mapping is read page by page while
  it is scanned, not when it is made: \<open>mapped_read_faults\<close> says whether the scan runs
  into a page that cannot be read (the file was truncated after it was mapped, or the
  device fails), which raises nothing but kills the process.
\<close>

record fnode =
  path_exists :: bool
  path_getsize :: "oserr + nat"
  path_open :: "oserr + bytes"
  mapped_read_faults :: bool

type_synonym filesystem = "pystr \<Rightarrow> fnode"

definition regular_file :: "bytes \<Rightarrow> fnode" where
  "regular_file bs =
     \<lparr>path_exists = True, path_getsize = Inr (length bs), path_open = Inr bs,
      mapped_read_faults = False\<rparr>"

definition missing_file :: fnode where
  "missing_file =
     \<lparr>path_exists = False, path_getsize = Inl ENOENT, path_open = Inl ENOENT,
      mapped_read_faults = False\<rparr>"

definition unreadable_file :: "nat \<Rightarrow> fnode" where
  "unreadable_file n =
     \<lparr>path_exists = True, path_getsize = Inr n, path_open = Inl EACCES,
      mapped_read_faults = False\<rparr>"

text \<open>
  The outcome of \<open>subprocess.run(argv, check=False, timeout=5.0)\<close>: the exit status of the
  child, the expiry of the timeout, or another exception raised while spawning.
\<close>

datatype proc_result = Exited int | TimedOut | SpawnError pyerr

type_synonym spawner = "pystr list \<Rightarrow> proc_result"

section \<open>search\_algorithms.py: loading and the file-based strategies\<close>

text \<open>\<open>load_lines_list\<close>: each handler logs and raises the exception again.\<close>

definition load_lines_list :: "filesystem \<Rightarrow> pystr \<Rightarrow> pyerr + pystr list" where
  "load_lines_list fs path =
     (case path_open (fs path) of
        Inl e \<Rightarrow> Inl (raise_os e)
      | Inr bs \<Rightarrow> Inr (map (rstrip [10]) (readlines (utf8_decode bs))))"

definition load_lines_set :: "filesystem \<Rightarrow> pystr \<Rightarrow> pyerr + pystr set" where
  "load_lines_set fs path =
     (case path_open (fs path) of
        Inl e \<Rightarrow> Inl (raise_os e)
      | Inr bs \<Rightarrow> Inr (set (map (rstrip [10]) (readlines (utf8_decode bs)))))"

text \<open>
  \<open>mmap_search\<close>. \<open>os.path.getsize\<close> and the encoding of the needle stand outside the
  \<open>try\<close>, so their exceptions leave the function; \<open>mmap.mmap\<close> raises \<open>ValueError\<close> on an
  empty file; \<open>mm.find\<close> reads the mapped pages, and a page that cannot be read ends the
  process with \<open>SIGBUS\<close>.
\<close>

definition mmap_find :: "filesystem \<Rightarrow> pystr \<Rightarrow> bytes \<Rightarrow> pyerr + bool" where
  "mmap_find fs path needle_bytes =
     (case path_open (fs path) of
        Inl e \<Rightarrow> Inl (raise_os e)
      | Inr mm \<Rightarrow>
          if mm = [] then Inl ValueError
          else if mapped_read_faults (fs path) then Inl SIGBUS
          else Inr (bytes_find mm needle_bytes \<noteq> - 1))"

definition mmap_search :: "filesystem \<Rightarrow> pystr \<Rightarrow> pystr \<Rightarrow> pyerr + bool" where
  "mmap_search fs path needle =
     (if \<not> path_exists (fs path) then Inr False
      else
        (case path_getsize (fs path) of
           Inl e \<Rightarrow> Inl (raise_os e)
         | Inr n \<Rightarrow>
             if n = 0 then Inr False
             else
               (case utf8_encode (needle @ [10]) of
                  Inl e \<Rightarrow> Inl e
                | Inr needle_bytes \<Rightarrow>
                    (case mmap_find fs path needle_bytes of
                       Inr b \<Rightarrow> Inr b
                     | Inl e \<Rightarrow>
                         if e = FileNotFoundError then Inr False
                         else if e = PermissionError then Inr False
                         else if is_OSError e \<or> is_ValueError e then Inr False
                         else Inl e))))"

text \<open>\<open>grep_subprocess\<close>: \<open>grep -x -- needle path\<close>, found when the exit status is 0.\<close>

definition grep_run :: "spawner \<Rightarrow> pystr \<Rightarrow> pystr \<Rightarrow> pyerr + bool" where
  "grep_run spawn path needle =
     (case spawn [ascii ''grep'', ascii ''-x'', ascii ''--'', needle, path] of
        Exited returncode \<Rightarrow> Inr (returncode = 0)
      | TimedOut \<Rightarrow> Inl TimeoutExpired
      | SpawnError e \<Rightarrow> Inl e)"

definition grep_subprocess :: "filesystem \<Rightarrow> spawner \<Rightarrow> pystr \<Rightarrow> pystr \<Rightarrow> pyerr + bool" where
  "grep_subprocess fs spawn path needle =
     (if \<not> path_exists (fs path) then Inr False
      else
        (case grep_run spawn path needle of
           Inr b \<Rightarrow> Inr b
         | Inl e \<Rightarrow>
             if e = FileNotFoundError then Inr False
             else if e = TimeoutExpired then Inr False
             else if is_OSError e \<or> is_SubprocessError e then Inr False
             else Inl e))"

section \<open>main\_server.py: Config and Searcher\<close>

record config =
  linuxpath :: pystr
  reread_on_query :: bool
  ssl_enabled :: bool
  ssl_certfile :: "pystr option"
  ssl_keyfile :: "pystr option"
  host :: pystr
  port :: int
  max_payload :: int
  default_algorithm :: pystr

record searcher =
  cfg :: config
  cached_set :: "pystr set option"
  cached_list :: "pystr list option"
  cached_sorted :: "pystr list option"

text \<open>The \<open>try\<close> block of \<open>Searcher._preload\<close>; \<open>sorted\<close> is \<open>sort\<close>.\<close>

definition preload_body :: "filesystem \<Rightarrow> searcher \<Rightarrow> pyerr + searcher" where
  "preload_body fs s =
     (let path = linuxpath (cfg s) in
      if default_algorithm (cfg s) = ascii ''set'' then
        (case load_lines_set fs path of
           Inl e \<Rightarrow> Inl e
         | Inr ls \<Rightarrow> Inr (s\<lparr>cached_set := Some ls\<rparr>))
      else if default_algorithm (cfg s) = ascii ''list'' then
        (case load_lines_list fs path of
           Inl e \<Rightarrow> Inl e
         | Inr ls \<Rightarrow> Inr (s\<lparr>cached_list := Some ls\<rparr>))
      else if default_algorithm (cfg s) = ascii ''binary'' then
        (case load_lines_list fs path of
           Inl e \<Rightarrow> Inl e
         | Inr ls \<Rightarrow> Inr (s\<lparr>cached_sorted := Some (sort ls)\<rparr>))
      else
        (case load_lines_set fs path of
           Inl e \<Rightarrow> Inl e
         | Inr ls \<Rightarrow> Inr (s\<lparr>cached_set := Some ls\<rparr>)))"

text \<open>\<open>Searcher._preload\<close>: the three handlers log and leave the caches as they are.\<close>

definition preload :: "filesystem \<Rightarrow> searcher \<Rightarrow> pyerr + searcher" where
  "preload fs s =
     (case preload_body fs s of
        Inr s' \<Rightarrow> Inr s'
      | Inl e \<Rightarrow>
          if e = FileNotFoundError then Inr s
          else if e = PermissionError then Inr s
          else if is_OSError e then Inr s
          else Inl e)"

text \<open>\<open>Searcher.__init__\<close>, on the file system as it is when the server is constructed.\<close>

definition Searcher_init :: "filesystem \<Rightarrow> config \<Rightarrow> pyerr + searcher" where
  "Searcher_init fs c =
     (let s = \<lparr>cfg = c, cached_set = None, cached_list = None, cached_sorted = None\<rparr> in
      if \<not> reread_on_query c then preload fs s else Inr s)"

text \<open>The \<open>try\<close> block of \<open>Searcher.search\<close>, on the file system as it is at the query.\<close>

definition search_body :: "filesystem \<Rightarrow> searcher \<Rightarrow> pystr \<Rightarrow> pyerr + bool" where
  "search_body fs s needle =
     (let path = linuxpath (cfg s) in
      if reread_on_query (cfg s) then
        if default_algorithm (cfg s) = ascii ''set'' then
          (case load_lines_set fs path of
             Inl e \<Rightarrow> Inl e
           | Inr ls \<Rightarrow> Inr (needle \<in> ls))
        else if default_algorithm (cfg s) = ascii ''list'' then
          (case load_lines_list fs path of
             Inl e \<Rightarrow> Inl e
           | Inr ls \<Rightarrow> Inr (needle \<in> set ls))
        else if default_algorithm (cfg s) = ascii ''mmap'' then
          mmap_search fs path needle
        else if default_algorithm (cfg s) = ascii ''binary'' then
          (case load_lines_list fs path of
             Inl e \<Rightarrow> Inl e
           | Inr ls \<Rightarrow> binary_search_sorted (map PStr (sort ls)) (PStr needle))
        else
          mmap_search fs path needle
      else
        (case cached_set s of
           Some ls \<Rightarrow> Inr (needle \<in> ls)
         | None \<Rightarrow>
             (case cached_list s of
                Some ls \<Rightarrow> Inr (needle \<in> set ls)
              | None \<Rightarrow>
                  (case cached_sorted s of
                     Some ls \<Rightarrow> binary_search_sorted (map PStr ls) (PStr needle)
                   | None \<Rightarrow> mmap_search fs path needle))))"

text \<open>\<open>Searcher.search\<close>: the four handlers log and return false.\<close>

definition Searcher_search :: "filesystem \<Rightarrow> searcher \<Rightarrow> pystr \<Rightarrow> pyerr + bool" where
  "Searcher_search fs s needle =
     (case search_body fs s needle of
        Inr b \<Rightarrow> Inr b
      | Inl e \<Rightarrow>
          if e = FileNotFoundError then Inr False
          else if e = PermissionError then Inr False
          else if is_OSError e then Inr False
          else if e = TypeError \<or> is_ValueError e then Inr False
          else Inl e)"

section \<open>utils.py and the connection handler\<close>

text \<open>
  What one client connection answers to the calls of the handler: \<open>recv\<close> raises or
  hands over the bytes that have arrived (of which it returns at most the number asked
  for), \<open>sendall\<close>, \<open>shutdown\<close> and \<open>close\<close> raise or succeed. \<open>recv\<close> allocates
  a buffer of the size asked for before it reads; \<open>recv_alloc_limit\<close> is the largest
  buffer the process can get.
\<close>

record conn_env =
  recv_result :: "pyerr + bytes"
  recv_alloc_limit :: nat
  sendall_result :: "pyerr option"
  shutdown_result :: "pyerr option"
  close_result :: "pyerr option"

text \<open>
  \<open>sock.recv(max_len)\<close>, on a 64-bit platform: a size that is no C \<open>ssize_t\<close> raises
  \<open>OverflowError\<close>, a negative one \<open>ValueError\<close>; a size for which no \<open>bytes\<close> object
  exists (above \<open>2^63 - 34\<close>) raises \<open>OverflowError\<close>, and one that cannot be allocated
  \<open>MemoryError\<close>; only then is the socket read.
\<close>

definition sock_recv :: "conn_env \<Rightarrow> int \<Rightarrow> pyerr + bytes" where
  "sock_recv conn max_len =
     (if max_len < - (2 ^ 63) \<or> 2 ^ 63 \<le> max_len then Inl OverflowError
      else if max_len < 0 then Inl ValueError
      else if 2 ^ 63 - 34 < max_len then Inl OverflowError
      else if recv_alloc_limit conn < nat max_len then Inl MemoryError
      else
        (case recv_result conn of
           Inl e \<Rightarrow> Inl e
         | Inr data \<Rightarrow> Inr (take (nat max_len) data)))"

definition safe_recv :: "conn_env \<Rightarrow> int \<Rightarrow> pyerr + bytes" where
  "safe_recv conn max_len =
     (case sock_recv conn max_len of
        Inl e \<Rightarrow> Inl e
      | Inr data \<Rightarrow> Inr (rstrip [CHR 0x00] data))"

text \<open>
  The calls a handler makes on the searcher and on its socket, in the order it makes them.
\<close>

datatype handler_action = SearchCall pystr | SendAll bytes | ShutdownRDWR | CloseConn

definition STRING_EXISTS :: bytes where
  "STRING_EXISTS = ''STRING EXISTS'' @ [CHR 0x0A]"

definition STRING_NOT_FOUND :: bytes where
  "STRING_NOT_FOUND = ''STRING NOT FOUND'' @ [CHR 0x0A]"

text \<open>
  The inner \<open>try\<close> around \<open>sendall\<close>: the call is made once, and \<open>BrokenPipeError\<close>,
  \<open>ConnectionResetError\<close> and \<open>OSError\<close> are logged.
\<close>

definition send_response :: "conn_env \<Rightarrow> bool \<Rightarrow> handler_action list \<times> pyerr option" where
  "send_response conn found =
     ([SendAll (if found then STRING_EXISTS else STRING_NOT_FOUND)],
      (case sendall_result conn of
         None \<Rightarrow> None
       | Some e \<Rightarrow>
           if e = BrokenPipeError then None
           else if e = ConnectionResetError then None
           else if is_OSError e then None
           else Some e))"

text \<open>
  The outer \<open>try\<close> block of \<open>TCPServer._handle_client\<close>. Decoding with \<open>errors="replace"\<close>
  raises nothing, so the handler of \<open>UnicodeDecodeError\<close> around it has no branch here.
\<close>

definition handle_body ::
  "filesystem \<Rightarrow> searcher \<Rightarrow> conn_env \<Rightarrow> handler_action list \<times> pyerr option" where
  "handle_body fs s conn =
     (case safe_recv conn (max_payload (cfg s)) of
        Inl e \<Rightarrow> ([], Some e)
      | Inr raw \<Rightarrow>
          (let query = rstrip [13, 10] (utf8_decode raw) in
           case Searcher_search fs s query of
             Inl e \<Rightarrow> ([SearchCall query], Some e)
           | Inr found \<Rightarrow>
               (case send_response conn found of
                  (sent, r) \<Rightarrow> (SearchCall query # sent, r))))"

text \<open>
  The \<open>finally\<close> block: \<open>shutdown\<close>, then \<open>close\<close>, each under \<open>except OSError: pass\<close>.
\<close>

definition handle_finally :: "conn_env \<Rightarrow> handler_action list \<times> pyerr option" where
  "handle_finally conn =
     (case shutdown_result conn of
        Some e \<Rightarrow>
          if is_OSError e then
            ([ShutdownRDWR, CloseConn],
             (case close_result conn of
                None \<Rightarrow> None
              | Some e' \<Rightarrow> if is_OSError e' then None else Some e'))
          else ([ShutdownRDWR], Some e)
      | None \<Rightarrow>
          ([ShutdownRDWR, CloseConn],
           (case close_result conn of
              None \<Rightarrow> None
            | Some e' \<Rightarrow> if is_OSError e' then None else Some e')))"

text \<open>
  The handlers of the outer \<open>try\<close>, applied to the exception that left its block (\<open>None\<close>
  when none did): \<open>socket.timeout\<close>, \<open>ConnectionResetError\<close>, \<open>BrokenPipeError\<close>,
  \<open>ssl.SSLError\<close>, \<open>OSError\<close>, \<open>UnicodeDecodeError\<close> and \<open>ValueError\<close> are logged.
\<close>

definition handle_excepts :: "pyerr option \<Rightarrow> pyerr option" where
  "handle_excepts r =
     (case r of
        None \<Rightarrow> None
      | Some e \<Rightarrow>
          if e = SocketTimeout then None
          else if e = ConnectionResetError then None
          else if e = BrokenPipeError then None
          else if e = SSLError then None
          else if is_OSError e then None
          else if e = UnicodeDecodeError then None
          else if is_ValueError e then None
          else Some e)"

text \<open>
  \<open>TCPServer._handle_client\<close>: the calls made, and the exception that leaves the handler
  (\<open>None\<close> when it returns). An exception of the \<open>finally\<close> block replaces the pending one.
  When the process is killed inside the search, nothing more is called.
\<close>

definition handle_client ::
  "filesystem \<Rightarrow> searcher \<Rightarrow> conn_env \<Rightarrow> handler_action list \<times> pyerr option" where
  "handle_client fs s conn =
     (case handle_body fs s conn of
        (acts, r) \<Rightarrow>
          if r = Some SIGBUS then (acts, Some SIGBUS)
          else
            (case handle_finally conn of
               (facts, fr) \<Rightarrow>
                 (acts @ facts,
                  (case fr of Some e \<Rightarrow> Some e | None \<Rightarrow> handle_excepts r))))"

text \<open>The payloads of the \<open>sendall\<close> calls among the calls of a handler.\<close>

fun responses :: "handler_action list \<Rightarrow> bytes list" where
  "responses [] = []"
| "responses (SendAll b # as) = b # responses as"
| "responses (_ # as) = responses as"

text \<open>The arguments of the calls of \<open>Searcher.search\<close> among the calls of a handler.\<close>

fun queries :: "handler_action list \<Rightarrow> pystr list" where
  "queries [] = []"
| "queries (SearchCall q # as) = q # queries as"
| "queries (_ # as) = queries as"

section \<open>ssl\_utils.py and TCPServer.start\<close>

text \<open>
  What the operating system and the TLS library answer during startup, and the outcomes of
  the calls of \<open>accept\<close> up to the one after which the stop flag is seen set.
\<close>

datatype accept_result = Accepted | AcceptRaised pyerr

record server_env =
  bind_result :: "pyerr option"
  listen_result :: "pyerr option"
  load_cert_chain_result :: "pyerr option"
  wrap_socket_result :: "pyerr option"
  accepts :: "accept_result list"

datatype server_action =
    Bind | Listen | NewContext | LoadCertChain pystr pystr | DisableLegacy | WrapSocket
  | Accept | StartHandler | CloseListener

text \<open>\<open>create_server_ssl_context\<close>.\<close>

definition create_server_ssl_context ::
  "server_env \<Rightarrow> pystr \<Rightarrow> pystr \<Rightarrow> server_action list \<times> pyerr option" where
  "create_server_ssl_context env certfile keyfile =
     (case load_cert_chain_result env of
        Some e \<Rightarrow> ([NewContext, LoadCertChain certfile keyfile], Some e)
      | None \<Rightarrow> ([NewContext, LoadCertChain certfile keyfile, DisableLegacy], None))"

text \<open>Python's \<open>not certfile\<close>: true of \<open>None\<close> and of the empty string.\<close>

definition py_not :: "pystr option \<Rightarrow> bool" where
  "py_not p = (case p of None \<Rightarrow> True | Some v \<Rightarrow> v = [])"

definition wrap_socket_if_needed ::
  "server_env \<Rightarrow> bool \<Rightarrow> pystr option \<Rightarrow> pystr option \<Rightarrow> server_action list \<times> pyerr option" where
  "wrap_socket_if_needed env enabled certfile keyfile =
     (if \<not> enabled then ([], None)
      else if py_not certfile \<or> py_not keyfile then ([], Some RuntimeError)
      else
        (case create_server_ssl_context env (the certfile) (the keyfile) of
           (acts, Some e) \<Rightarrow> (acts, Some e)
         | (acts, None) \<Rightarrow> (acts @ [WrapSocket], wrap_socket_result env)))"

text \<open>The first \<open>try\<close> block of \<open>TCPServer.start\<close>: \<open>bind\<close>, \<open>listen\<close>, the TLS wrapping.\<close>

definition start_setup :: "server_env \<Rightarrow> config \<Rightarrow> server_action list \<times> pyerr option" where
  "start_setup env c =
     (case bind_result env of
        Some e \<Rightarrow> ([Bind], Some e)
      | None \<Rightarrow>
          (case listen_result env of
             Some e \<Rightarrow> ([Bind, Listen], Some e)
           | None \<Rightarrow>
               if ssl_enabled c then
                 (case wrap_socket_if_needed env True (ssl_certfile c) (ssl_keyfile c) of
                    (acts, r) \<Rightarrow> ([Bind, Listen] @ acts, r))
               else ([Bind, Listen], None)))"

text \<open>
  The accept loop with its \<open>finally\<close>: each accepted connection gets a handler thread,
  \<open>socket.timeout\<close> and \<open>OSError\<close> are passed over, any other exception leaves the loop;
  the listening socket is closed on the way out.
\<close>

fun accept_loop :: "accept_result list \<Rightarrow> server_action list \<times> pyerr option" where
  "accept_loop [] = ([CloseListener], None)"
| "accept_loop (Accepted # rs) =
     (case accept_loop rs of (acts, r) \<Rightarrow> (Accept # StartHandler # acts, r))"
| "accept_loop (AcceptRaised e # rs) =
     (if e = SocketTimeout \<or> is_OSError e then
        (case accept_loop rs of (acts, r) \<Rightarrow> (Accept # acts, r))
      else ([Accept, CloseListener], Some e))"

text \<open>
  \<open>TCPServer.start\<close>: the calls made, and the exception that leaves \<open>start\<close> (\<open>None\<close> when
  it returns). The handlers of the first \<open>try\<close> are \<open>PermissionError\<close>, \<open>OSError\<close> and
  \<open>ssl.SSLError\<close>; each logs and returns.
\<close>

definition start :: "server_env \<Rightarrow> config \<Rightarrow> server_action list \<times> pyerr option" where
  "start env c =
     (case start_setup env c of
        (acts, Some e) \<Rightarrow>
          if e = PermissionError then (acts, None)
          else if is_OSError e then (acts, None)
          else if e = SSLError then (acts, None)
          else (acts, Some e)
      | (acts, None) \<Rightarrow>
          (case accept_loop (accepts env) of
             (acts', r) \<Rightarrow> (acts @ acts', r)))"

section \<open>client.py\<close>

text \<open>
  What the network answers to the client: the TLS wrapping of the socket (when asked
  for), the resolution of the host name and the connection itself (the two steps of
  \<open>connect\<close>), \<open>sendall\<close>, \<open>recv\<close>, \<open>close\<close> (which fails with an error of the operating
  system or not at all), and the time measured around the exchange, in milliseconds.
\<close>

record client_env =
  tls_wrap_result :: "pyerr option"
  resolve_result :: "pyerr option"
  connect_result :: "pyerr option"
  client_sendall_result :: "pyerr option"
  client_recv_result :: "pyerr + bytes"
  client_close_result :: "oserr option"
  elapsed_ms :: real

datatype client_action = Connect pystr int | ClientSend bytes | ClientRecv nat | ClientClose

definition DEFAULT_MAX :: nat where
  "DEFAULT_MAX = 1024"

text \<open>
  \<open>sock.connect((host, port))\<close>: a port that is no C \<open>int\<close> raises \<open>OverflowError\<close>;
  then the host is resolved; then a port outside \<open>0..65535\<close> raises \<open>OverflowError\<close>;
  then the connection is made.
\<close>

definition sock_connect :: "client_env \<Rightarrow> pystr \<Rightarrow> int \<Rightarrow> pyerr option" where
  "sock_connect env h p =
     (if p < - (2 ^ 31) \<or> 2 ^ 31 \<le> p then Some OverflowError
      else
        (case resolve_result env of
           Some e \<Rightarrow> Some e
         | None \<Rightarrow>
             if p < 0 \<or> 65535 < p then Some OverflowError
             else connect_result env))"

text \<open>The second \<open>try\<close> block of \<open>query_string\<close>.\<close>

definition query_body ::
  "client_env \<Rightarrow> pystr \<Rightarrow> int \<Rightarrow> pystr \<Rightarrow> client_action list \<times> (pyerr + bool \<times> real \<times> bytes)" where
  "query_body env h p s =
     (case sock_connect env h p of
        Some e \<Rightarrow> ([Connect h p], Inl e)
      | None \<Rightarrow>
          (case utf8_encode s of
             Inl e \<Rightarrow> ([Connect h p], Inl e)
           | Inr payload \<Rightarrow>
               if length payload > DEFAULT_MAX then ([Connect h p], Inl ValueError)
               else
                 (case client_sendall_result env of
                    Some e \<Rightarrow> ([Connect h p, ClientSend payload], Inl e)
                  | None \<Rightarrow>
                      (case client_recv_result env of
                         Inl e \<Rightarrow> ([Connect h p, ClientSend payload, ClientRecv DEFAULT_MAX], Inl e)
                       | Inr d \<Rightarrow>
                           (let data = take DEFAULT_MAX d in
                            ([Connect h p, ClientSend payload, ClientRecv DEFAULT_MAX],
                             Inr (bytes_contains ''STRING EXISTS'' data, elapsed_ms env, data)))))))"

text \<open>
  \<open>query_string\<close>: the handlers of the first \<open>try\<close> (around the TLS wrapping) are
  \<open>ssl.SSLError\<close> and \<open>FileNotFoundError\<close>; those of the second are
  \<open>ConnectionRefusedError\<close>, \<open>socket.timeout\<close>, \<open>ConnectionResetError\<close>,
  \<open>BrokenPipeError\<close>, \<open>ssl.SSLError\<close>, \<open>socket.gaierror\<close>, \<open>ValueError\<close> and \<open>OSError\<close>,
  each returning \<open>(False, 0.0, b"")\<close>; the \<open>finally\<close> closes the socket under
  \<open>except OSError: pass\<close>.
\<close>

definition query_string ::
  "client_env \<Rightarrow> pystr \<Rightarrow> int \<Rightarrow> pystr \<Rightarrow> bool \<Rightarrow>
   client_action list \<times> (pyerr + bool \<times> real \<times> bytes)" where
  "query_string env h p s use_ssl =
     (case (if use_ssl then tls_wrap_result env else None) of
        Some e \<Rightarrow>
          if e = SSLError then ([], Inr (False, 0, []))
          else if e = FileNotFoundError then ([], Inr (False, 0, []))
          else ([], Inl e)
      | None \<Rightarrow>
          (case query_body env h p s of
             (acts, r) \<Rightarrow>
               (let r' =
                      (case r of
                         Inr v \<Rightarrow> Inr v
                       | Inl e \<Rightarrow>
                           if is_OSError e \<or> is_ValueError e then Inr (False, 0, [])
                           else Inl e)
                in case client_close_result env of
                     None \<Rightarrow> (acts @ [ClientClose], r')
                   | Some e \<Rightarrow>
                       if is_OSError (raise_os e) then (acts @ [ClientClose], r')
                       else (acts @ [ClientClose], Inl (raise_os e)))))"

text \<open>The payloads the client hands to \<open>sendall\<close>.\<close>

fun client_sent :: "client_action list \<Rightarrow> bytes list" where
  "client_sent [] = []"
| "client_sent (ClientSend b # as) = b # client_sent as"
| "client_sent (_ # as) = client_sent as"

section \<open>Concrete inputs\<close>

text \<open>
  A dataset path, file systems in which it holds given bytes or is missing, a
  configuration with a given strategy identifier and mode, and a searcher constructed on
  one file system and queried on another (the file may change while the server runs).
\<close>

definition data_path :: pystr where
  "data_path = ascii ''data.txt''"

definition fs_with :: "bytes \<Rightarrow> filesystem" where
  "fs_with bs = (\<lambda>p. if p = data_path then regular_file bs else missing_file)"

definition fs_missing :: filesystem where
  "fs_missing = (\<lambda>p. missing_file)"

text \<open>
  The dataset holds the given bytes when it is mapped and is cut to nothing before the
  scan reads it.
\<close>

definition fs_truncated :: "bytes \<Rightarrow> filesystem" where
  "fs_truncated bs =
     (\<lambda>p. if p = data_path then (regular_file bs)\<lparr>mapped_read_faults := True\<rparr>
          else missing_file)"

definition cfg_of :: "pystr \<Rightarrow> bool \<Rightarrow> config" where
  "cfg_of alg reread =
     \<lparr>linuxpath = data_path, reread_on_query = reread, ssl_enabled = False,
      ssl_certfile = None, ssl_keyfile = None, host = ascii ''127.0.0.1'', port = 44445,
      max_payload = 1024, default_algorithm = alg\<rparr>"

definition init_then_search ::
  "filesystem \<Rightarrow> config \<Rightarrow> filesystem \<Rightarrow> pystr \<Rightarrow> pyerr + bool" where
  "init_then_search fs0 c fs needle =
     (case Searcher_init fs0 c of
        Inl e \<Rightarrow> Inl e
      | Inr s \<Rightarrow> Searcher_search fs s needle)"

text \<open>A connection on which \<open>recv\<close> has the given outcome and every other call succeeds.\<close>

definition conn_of :: "pyerr + bytes \<Rightarrow> conn_env" where
  "conn_of r =
     \<lparr>recv_result = r, recv_alloc_limit = 1048576, sendall_result = None,
      shutdown_result = None, close_result = None\<rparr>"

text \<open>A process table in which every spawned \<open>grep\<close> exits with status 0.\<close>

definition grep_finds :: spawner where
  "grep_finds = (\<lambda>argv. Exited 0)"

text \<open>A process table in which every spawned \<open>grep\<close> runs into the timeout.\<close>

definition grep_hangs :: spawner where
  "grep_hangs = (\<lambda>argv. TimedOut)"

text \<open>
  A startup in which every call of the operating system and of the TLS library succeeds
  and one connection is accepted before the stop; a configuration with TLS enabled and
  the given certificate and key paths; the startup with a certificate file that cannot be
  found.
\<close>

definition env_ok :: server_env where
  "env_ok =
     \<lparr>bind_result = None, listen_result = None, load_cert_chain_result = None,
      wrap_socket_result = None, accepts = [Accepted]\<rparr>"

definition cfg_tls :: "pystr option \<Rightarrow> pystr option \<Rightarrow> config" where
  "cfg_tls certfile keyfile =
     (cfg_of (ascii ''set'') False)
       \<lparr>ssl_enabled := True, ssl_certfile := certfile, ssl_keyfile := keyfile\<rparr>"

definition env_cert_not_found :: server_env where
  "env_cert_not_found = env_ok\<lparr>load_cert_chain_result := Some FileNotFoundError\<rparr>"

text \<open>
  A network in which the server answers the given bytes and nothing fails; one in which
  the server refuses the connection.
\<close>

definition client_env_ok :: "bytes \<Rightarrow> client_env" where
  "client_env_ok answer =
     \<lparr>tls_wrap_result = None, resolve_result = None, connect_result = None,
      client_sendall_result = None, client_recv_result = Inr answer,
      client_close_result = None, elapsed_ms = 1\<rparr>"

definition client_env_refused :: client_env where
  "client_env_refused = (client_env_ok [])\<lparr>connect_result := Some ConnectionRefusedError\<rparr>"

section \<open>Properties of the binary search\<close>

lemma bisect_left_loop_total:
  "hi \<le> length a \<Longrightarrow>
   (\<exists>i. bisect_left_loop a x lo hi = Inr i \<and> i \<le> max lo hi) \<or> bisect_left_loop a x lo hi = Inl TypeError"
proof (induction a x lo hi rule: bisect_left_loop.induct)
  case (1 a x lo hi)
  show ?case
  proof (cases "lo < hi")
    case False
    then show ?thesis by (simp add: bisect_left_loop.simps [of a x lo hi])
  next
    case True
    let ?mid = "(lo + hi) div 2"
    from True "1.prems" have mid: "?mid < length a" "?mid < hi" "lo \<le> ?mid" by auto
    then have gi: "py_getitem a ?mid = Inr (a ! ?mid)" by (simp add: py_getitem_def)
    show ?thesis
    proof (cases "py_lt (a ! ?mid) x")
      case (Inl e)
      then have "e = TypeError" by (cases "(a ! ?mid, x)" rule: py_lt.cases) auto
      with Inl gi True show ?thesis by (simp add: bisect_left_loop.simps [of a x lo hi])
    next
      case (Inr b)
      show ?thesis
      proof (cases b)
        case True
        have "(\<exists>i. bisect_left_loop a x (?mid + 1) hi = Inr i \<and> i \<le> max (?mid + 1) hi)
              \<or> bisect_left_loop a x (?mid + 1) hi = Inl TypeError"
          using "1.IH"(1) [OF \<open>lo < hi\<close> gi Inr True "1.prems"] .
        moreover have "bisect_left_loop a x lo hi = bisect_left_loop a x (?mid + 1) hi"
          using \<open>lo < hi\<close> gi Inr True by (simp add: bisect_left_loop.simps [of a x lo hi])
        ultimately show ?thesis using mid by auto
      next
        case False
        have "?mid \<le> length a" using mid by simp
        then have "(\<exists>i. bisect_left_loop a x lo ?mid = Inr i \<and> i \<le> max lo ?mid)
              \<or> bisect_left_loop a x lo ?mid = Inl TypeError"
          using "1.IH"(2) [OF \<open>lo < hi\<close> gi Inr False] by simp
        moreover have "bisect_left_loop a x lo hi = bisect_left_loop a x lo ?mid"
          using \<open>lo < hi\<close> gi Inr False by (simp add: bisect_left_loop.simps [of a x lo hi])
        ultimately show ?thesis using mid by auto
      qed
    qed
  qed
qed

lemma bisect_left_loop_sorted:
  "sorted ls \<Longrightarrow> lo \<le> hi \<Longrightarrow> hi \<le> length ls \<Longrightarrow>
   (\<forall>j<lo. ls ! j < q) \<Longrightarrow> (\<forall>j. hi \<le> j \<and> j < length ls \<longrightarrow> q \<le> ls ! j) \<Longrightarrow>
   \<exists>i. bisect_left_loop (map PStr ls) (PStr q) lo hi = Inr i \<and> lo \<le> i \<and> i \<le> hi \<and>
       (\<forall>j<i. ls ! j < q) \<and> (\<forall>j. i \<le> j \<and> j < length ls \<longrightarrow> q \<le> ls ! j)"
proof (induction "map PStr ls" "PStr q" lo hi rule: bisect_left_loop.induct)
  case (1 lo hi)
  let ?a = "map PStr ls" and ?x = "PStr q"
  show ?case
  proof (cases "lo < hi")
    case False
    then have "bisect_left_loop ?a ?x lo hi = Inr lo"
      by (subst bisect_left_loop.simps) simp
    with False "1.prems" show ?thesis by auto
  next
    case True
    let ?mid = "(lo + hi) div 2"
    from True "1.prems" have mid: "?mid < length ls" "?mid < hi" "lo \<le> ?mid" by auto
    then have gi: "py_getitem ?a ?mid = Inr (PStr (ls ! ?mid))" by (simp add: py_getitem_def)
    have lt: "py_lt (PStr (ls ! ?mid)) ?x = Inr (ls ! ?mid < q)" by simp
    show ?thesis
    proof (cases "ls ! ?mid < q")
      case less: True
      have below: "\<forall>j<?mid + 1. ls ! j < q"
      proof (intro allI impI)
        fix j assume "j < ?mid + 1"
        then have "j \<le> ?mid" by simp
        with \<open>sorted ls\<close> mid(1) have "ls ! j \<le> ls ! ?mid" by (simp add: sorted_nth_mono)
        with less show "ls ! j < q" by simp
      qed
      have "\<exists>i. bisect_left_loop ?a ?x (?mid + 1) hi = Inr i \<and> ?mid + 1 \<le> i \<and> i \<le> hi \<and>
              (\<forall>j<i. ls ! j < q) \<and> (\<forall>j. i \<le> j \<and> j < length ls \<longrightarrow> q \<le> ls ! j)"
        using "1.hyps"(1) [OF True gi lt less "1.prems"(1) _ "1.prems"(3) below "1.prems"(5)] mid
        by simp
      moreover have "bisect_left_loop ?a ?x lo hi = bisect_left_loop ?a ?x (?mid + 1) hi"
        using True gi less by (simp add: bisect_left_loop.simps [of ?a ?x lo hi])
      ultimately show ?thesis using mid by auto
    next
      case ge: False
      have above: "\<forall>j. ?mid \<le> j \<and> j < length ls \<longrightarrow> q \<le> ls ! j"
      proof (intro allI impI)
        fix j assume "?mid \<le> j \<and> j < length ls"
        with \<open>sorted ls\<close> have "ls ! ?mid \<le> ls ! j" by (simp add: sorted_nth_mono)
        with ge show "q \<le> ls ! j" by simp
      qed
      have "\<exists>i. bisect_left_loop ?a ?x lo ?mid = Inr i \<and> lo \<le> i \<and> i \<le> ?mid \<and>
              (\<forall>j<i. ls ! j < q) \<and> (\<forall>j. i \<le> j \<and> j < length ls \<longrightarrow> q \<le> ls ! j)"
        using "1.hyps"(2) [OF True gi lt ge "1.prems"(1) mid(3) _ "1.prems"(4) above] mid
        by simp
      moreover have "bisect_left_loop ?a ?x lo hi = bisect_left_loop ?a ?x lo ?mid"
        using True gi ge by (simp add: bisect_left_loop.simps [of ?a ?x lo hi])
      ultimately show ?thesis using mid by auto
    qed
  qed
qed

lemma bisect_left_sorted:
  assumes "sorted ls"
  shows "\<exists>i. bisect_left (map PStr ls) (PStr q) = Inr i \<and> i \<le> length ls \<and>
          (\<forall>j<i. ls ! j < q) \<and> (\<forall>j. i \<le> j \<and> j < length ls \<longrightarrow> q \<le> ls ! j)"
proof -
  have "\<exists>i. bisect_left_loop (map PStr ls) (PStr q) 0 (length ls) = Inr i \<and> 0 \<le> i \<and>
          i \<le> length ls \<and> (\<forall>j<i. ls ! j < q) \<and> (\<forall>j. i \<le> j \<and> j < length ls \<longrightarrow> q \<le> ls ! j)"
    by (rule bisect_left_loop_sorted [OF assms]) auto
  then show ?thesis
    by (simp add: bisect_left_def)
qed

lemma left_bound_mem:
  assumes "sorted ls" and "i \<le> length ls"
    and "\<forall>j<i. ls ! j < q" and "\<forall>j. i \<le> j \<and> j < length ls \<longrightarrow> q \<le> ls ! j"
  shows "q \<in> set ls \<longleftrightarrow> i \<noteq> length ls \<and> ls ! i = q"
proof
  assume "q \<in> set ls"
  then obtain j where j: "j < length ls" "ls ! j = q" by (auto simp: in_set_conv_nth)
  with assms(3) have "\<not> j < i" by auto
  then have "i \<le> j" by simp
  with j assms(2) have "i < length ls" by simp
  moreover from assms(1) \<open>i \<le> j\<close> j have "ls ! i \<le> q" by (auto simp: sorted_nth_mono)
  moreover from assms(4) \<open>i < length ls\<close> have "q \<le> ls ! i" by simp
  ultimately show "i \<noteq> length ls \<and> ls ! i = q" by simp
next
  assume a: "i \<noteq> length ls \<and> ls ! i = q"
  with assms(2) have "i < length ls" by simp
  then have "ls ! i \<in> set ls" by (rule nth_mem)
  with a show "q \<in> set ls" by simp
qed

lemma binary_search_sorted_mem:
  assumes "sorted ls"
  shows "binary_search_sorted (map PStr ls) (PStr q) = Inr (q \<in> set ls)"
proof -
  obtain i where i: "bisect_left (map PStr ls) (PStr q) = Inr i" "i \<le> length ls"
      "\<forall>j<i. ls ! j < q" "\<forall>j. i \<le> j \<and> j < length ls \<longrightarrow> q \<le> ls ! j"
    using bisect_left_sorted [OF assms, of q] by (elim exE conjE)
  have mem: "q \<in> set ls \<longleftrightarrow> i \<noteq> length ls \<and> ls ! i = q"
    using assms i(2-4) by (rule left_bound_mem)
  show ?thesis
  proof (cases "i = length ls")
    case True
    with i(1) mem show ?thesis
      by (simp add: binary_search_sorted_def binary_search_body_def)
  next
    case False
    with i(2) have "i < length ls" by simp
    with i(1) mem False show ?thesis
      by (simp add: binary_search_sorted_def binary_search_body_def py_getitem_def)
  qed
qed

text \<open>
  Claim C4. On a list of strings sorted in natural string order, \<open>binary_search_sorted\<close>
  returns true exactly when some element equals the query. \<open>bisect_left\<close> returns the
  left bound \<open>i\<close> (every element before it is smaller than the query, every element
  from it on is at least the query), and the query is in the list exactly when \<open>i\<close> is
  inside the list and the element at \<open>i\<close> equals the query. A query strictly between
  two adjacent elements, or outside the range of the list, gives false.
\<close>

theorem binary_search_sorted_correct:
  assumes "sorted ls"
  shows "binary_search_sorted (map PStr ls) (PStr q) = Inr (q \<in> set ls) \<and>
         (\<exists>i. bisect_left (map PStr ls) (PStr q) = Inr i \<and> i \<le> length ls \<and>
              (\<forall>j<i. ls ! j < q) \<and> (\<forall>j. i \<le> j \<and> j < length ls \<longrightarrow> q \<le> ls ! j) \<and>
              (q \<in> set ls \<longleftrightarrow> i \<noteq> length ls \<and> ls ! i = q)) \<and>
         (Suc k < length ls \<and> ls ! k < q \<and> q < ls ! Suc k \<longrightarrow>
            binary_search_sorted (map PStr ls) (PStr q) = Inr False) \<and>
         (ls \<noteq> [] \<and> (q < hd ls \<or> last ls < q) \<longrightarrow>
            binary_search_sorted (map PStr ls) (PStr q) = Inr False)"
proof -
  obtain i where i: "bisect_left (map PStr ls) (PStr q) = Inr i" "i \<le> length ls"
      "\<forall>j<i. ls ! j < q" "\<forall>j. i \<le> j \<and> j < length ls \<longrightarrow> q \<le> ls ! j"
    using bisect_left_sorted [OF assms, of q] by (elim exE conjE)
  have mem: "q \<in> set ls \<longleftrightarrow> i \<noteq> length ls \<and> ls ! i = q"
    using assms i(2-4) by (rule left_bound_mem)
  have res: "binary_search_sorted (map PStr ls) (PStr q) = Inr (q \<in> set ls)"
    using assms by (rule binary_search_sorted_mem)
  have between: "q \<notin> set ls" if "Suc k < length ls" "ls ! k < q" "q < ls ! Suc k"
  proof
    assume "q \<in> set ls"
    then obtain j where j: "j < length ls" "ls ! j = q" by (auto simp: in_set_conv_nth)
    show False
    proof (cases "j \<le> k")
      case True
      with assms that(1) have "ls ! j \<le> ls ! k" by (simp add: sorted_nth_mono)
      with j that(2) show False by simp
    next
      case False
      then have "Suc k \<le> j" by simp
      with assms j(1) have "ls ! Suc k \<le> ls ! j" by (simp add: sorted_nth_mono)
      with j that(3) show False by simp
    qed
  qed
  have outside: "q \<notin> set ls" if "ls \<noteq> []" "q < hd ls \<or> last ls < q"
  proof
    assume "q \<in> set ls"
    then obtain j where j: "j < length ls" "ls ! j = q" by (auto simp: in_set_conv_nth)
    have lo: "hd ls \<le> q"
      using sorted_nth_mono [OF assms, of 0 j] j that(1) by (simp add: hd_conv_nth)
    have hi: "q \<le> last ls"
      using sorted_nth_mono [OF assms, of j "length ls - 1"] j that(1)
      by (simp add: last_conv_nth)
    from lo hi that(2) show False by auto
  qed
  have ex: "\<exists>i. bisect_left (map PStr ls) (PStr q) = Inr i \<and> i \<le> length ls \<and>
              (\<forall>j<i. ls ! j < q) \<and> (\<forall>j. i \<le> j \<and> j < length ls \<longrightarrow> q \<le> ls ! j) \<and>
              (q \<in> set ls \<longleftrightarrow> i \<noteq> length ls \<and> ls ! i = q)"
    using i mem by blast
  have rb: "Suc k < length ls \<and> ls ! k < q \<and> q < ls ! Suc k \<longrightarrow>
            binary_search_sorted (map PStr ls) (PStr q) = Inr False"
    using res between by simp
  have ro: "ls \<noteq> [] \<and> (q < hd ls \<or> last ls < q) \<longrightarrow>
            binary_search_sorted (map PStr ls) (PStr q) = Inr False"
    using res outside by simp
  from res ex rb ro show ?thesis by (intro conjI)
qed

theorem binary_search_sorted_correct_witness:
  "sorted [ascii ''apple'', ascii ''banana'', ascii ''cherry''] \<and>
   binary_search_sorted (map PStr [ascii ''apple'', ascii ''banana'', ascii ''cherry''])
     (PStr (ascii ''cherry'')) = Inr True \<and>
   binary_search_sorted (map PStr [ascii ''apple'', ascii ''banana'', ascii ''cherry''])
     (PStr (ascii ''blueberry'')) = Inr False \<and>
   binary_search_sorted (map PStr [ascii ''apple'', ascii ''banana'', ascii ''cherry''])
     (PStr (ascii ''pear'')) = Inr False"
proof -
  let ?ls = "[ascii ''apple'', ascii ''banana'', ascii ''cherry'']"
  have s: "sorted ?ls" by (simp add: ascii_def)
  have b: "Suc 1 < length ?ls \<and> ?ls ! 1 < ascii ''blueberry'' \<and> ascii ''blueberry'' < ?ls ! Suc 1"
    by (simp add: ascii_def)
  have o: "?ls \<noteq> [] \<and> (ascii ''pear'' < hd ?ls \<or> last ?ls < ascii ''pear'')"
    by (simp add: ascii_def)
  have c: "ascii ''cherry'' \<in> set ?ls" by simp
  have "binary_search_sorted (map PStr ?ls) (PStr (ascii ''cherry''))
          = Inr (ascii ''cherry'' \<in> set ?ls)"
    using binary_search_sorted_correct [OF s, of "ascii ''cherry''" 0] by blast
  with c have r1: "binary_search_sorted (map PStr ?ls) (PStr (ascii ''cherry'')) = Inr True"
    by (simp only: )
  have r2: "binary_search_sorted (map PStr ?ls) (PStr (ascii ''blueberry'')) = Inr False"
    using binary_search_sorted_correct [OF s, of "ascii ''blueberry''" 1] b by blast
  have r3: "binary_search_sorted (map PStr ?ls) (PStr (ascii ''pear'')) = Inr False"
    using binary_search_sorted_correct [OF s, of "ascii ''pear''" 0] o by blast
  from s r1 r2 r3 show ?thesis by blast
qed

text \<open>
  Claim C10. \<open>binary_search_sorted\<close> returns a boolean on every list and every query,
  sorted or not, empty or not, comparable or not: the only exception its body can raise is
  the \<open>TypeError\<close> of a comparison, which the handler resolves to false; the index
  read is guarded, so no \<open>IndexError\<close> arises.
\<close>

theorem binary_search_sorted_total:
  "(\<exists>b. binary_search_sorted lines needle = Inr b) \<and>
   (\<forall>e. binary_search_body lines needle = Inl e \<longrightarrow>
        e = TypeError \<and> binary_search_sorted lines needle = Inr False)"
proof -
  have bl: "(\<exists>i. bisect_left lines needle = Inr i \<and> i \<le> length lines)
            \<or> bisect_left lines needle = Inl TypeError"
    using bisect_left_loop_total [of "length lines" lines needle 0]
    by (simp add: bisect_left_def)
  then have body: "(\<exists>b. binary_search_body lines needle = Inr b)
                   \<or> binary_search_body lines needle = Inl TypeError"
    by (auto simp: binary_search_body_def py_getitem_def)
  then show ?thesis
    by (auto simp: binary_search_sorted_def)
qed


theorem binary_search_sorted_total_witness:
  "binary_search_body [PStr (ascii ''apple''), PInt 7] (PStr (ascii ''pear'')) = Inl TypeError \<and>
   binary_search_sorted [PStr (ascii ''apple''), PInt 7] (PStr (ascii ''pear'')) = Inr False \<and>
   binary_search_sorted [] PNone = Inr False"
proof -
  have "binary_search_body [PStr (ascii ''apple''), PInt 7] (PStr (ascii ''pear'')) = Inl TypeError"
    by code_simp
  moreover have "binary_search_sorted [] PNone = Inr False"
    by code_simp
  ultimately show ?thesis
    using binary_search_sorted_total [of "[PStr (ascii ''apple''), PInt 7]" "PStr (ascii ''pear'')"]
    by simp
qed

section \<open>Properties of the searcher\<close>

lemma binary_search_sorted_Inr: "\<exists>b. binary_search_sorted lines needle = Inr b"
proof -
  have "(\<exists>i. bisect_left lines needle = Inr i \<and> i \<le> length lines)
            \<or> bisect_left lines needle = Inl TypeError"
    using bisect_left_loop_total [of "length lines" lines needle 0]
    by (simp add: bisect_left_def)
  then have "(\<exists>b. binary_search_body lines needle = Inr b)
                   \<or> binary_search_body lines needle = Inl TypeError"
    by (auto simp: binary_search_body_def py_getitem_def)
  then show ?thesis
    by (auto simp: binary_search_sorted_def)
qed

lemma binary_search_sorted_not_Inl: "binary_search_sorted lines needle \<noteq> Inl e"
  using binary_search_sorted_Inr [of lines needle] by auto

lemma is_OSError_raise_os [simp]: "is_OSError (raise_os x)"
  by (cases x) simp_all

lemma raise_os_not_SIGBUS [simp]: "raise_os x \<noteq> SIGBUS"
  by (cases x) simp_all

lemma load_lines_list_Inl: "load_lines_list fs p = Inl e \<Longrightarrow> is_OSError e"
  by (auto simp: load_lines_list_def split: sum.splits)

lemma load_lines_set_Inl: "load_lines_set fs p = Inl e \<Longrightarrow> is_OSError e"
  by (auto simp: load_lines_set_def split: sum.splits)

lemma utf8_encode_Inl: "utf8_encode s = Inl e \<Longrightarrow> is_ValueError e"
  by (auto simp: utf8_encode_def split: if_splits)

lemma mmap_find_Inl:
  "mmap_find fs p nb = Inl e \<Longrightarrow>
   is_OSError e \<or> is_ValueError e \<or> (e = SIGBUS \<and> mapped_read_faults (fs p))"
  by (auto simp: mmap_find_def split: sum.splits if_splits)

lemma mmap_search_Inl:
  "mmap_search fs p n = Inl e \<Longrightarrow>
   is_OSError e \<or> is_ValueError e \<or> (e = SIGBUS \<and> mapped_read_faults (fs p))"
  unfolding mmap_search_def
  by (auto split: sum.splits if_splits dest: utf8_encode_Inl mmap_find_Inl)

lemma search_body_Inl:
  "search_body fs s q = Inl e \<Longrightarrow>
   is_OSError e \<or> is_ValueError e \<or>
   (e = SIGBUS \<and> mapped_read_faults (fs (linuxpath (cfg s))))"
  unfolding search_body_def Let_def
  by (auto simp: binary_search_sorted_not_Inl split: sum.splits if_splits option.splits
           dest: load_lines_list_Inl load_lines_set_Inl mmap_search_Inl)

lemma Searcher_search_caught:
  "search_body fs s q = Inl e \<Longrightarrow> e \<noteq> SIGBUS \<Longrightarrow> Searcher_search fs s q = Inr False"
  using search_body_Inl [of fs s q e]
  by (auto simp: Searcher_search_def)

lemma Searcher_search_Inl:
  assumes "Searcher_search fs s q = Inl e"
  shows "e = SIGBUS \<and> mapped_read_faults (fs (linuxpath (cfg s)))"
proof (cases "search_body fs s q")
  case (Inr b)
  with assms show ?thesis by (simp add: Searcher_search_def)
next
  case (Inl e')
  show ?thesis
  proof (cases "e' = SIGBUS")
    case True
    with Inl assms search_body_Inl [OF Inl] show ?thesis
      by (simp add: Searcher_search_def)
  next
    case False
    with Inl assms Searcher_search_caught [OF Inl] show ?thesis by simp
  qed
qed

lemma Searcher_search_Inr:
  "\<not> mapped_read_faults (fs (linuxpath (cfg s))) \<Longrightarrow> \<exists>b. Searcher_search fs s q = Inr b"
  using Searcher_search_Inl [of fs s q] by (cases "Searcher_search fs s q") auto

lemma mmap_search_open_fails:
  "path_open (fs p) = Inl x \<Longrightarrow>
   mmap_search fs p n = Inr False \<or> (\<exists>e. mmap_search fs p n = Inl e \<and> e \<noteq> SIGBUS)"
  unfolding mmap_search_def mmap_find_def
  by (auto simp: utf8_encode_def split: sum.splits if_splits)

lemma search_body_open_fails:
  assumes "path_open (fs (linuxpath (cfg s))) = Inl x"
    and "reread_on_query (cfg s) \<or>
         (cached_set s = None \<and> cached_list s = None \<and> cached_sorted s = None)"
  shows "search_body fs s q = Inr False \<or> (\<exists>e. search_body fs s q = Inl e \<and> e \<noteq> SIGBUS)"
  using assms mmap_search_open_fails [of fs "linuxpath (cfg s)" x q]
  unfolding search_body_def Let_def load_lines_list_def load_lines_set_def
  by (auto split: sum.splits if_splits option.splits)

lemma reread_searcher:
  "Searcher_init fs (cfg_of alg True)
     = Inr \<lparr>cfg = cfg_of alg True, cached_set = None, cached_list = None, cached_sorted = None\<rparr>"
  by (simp add: Searcher_init_def cfg_of_def)


lemma mmap_search_truncated:
  "mmap_search (fs_truncated (''banana'' @ [CHR 0x0A])) data_path (ascii ''banana'')
     = Inl SIGBUS"
  by (simp add: mmap_search_def mmap_find_def fs_truncated_def regular_file_def utf8_encode_def
      utf8_encode_cp_def is_surrogate_def char_of_def bit_0 ascii_def)

lemma search_killed_on_truncated:
  "Searcher_search (fs_truncated (''banana'' @ [CHR 0x0A]))
     \<lparr>cfg = cfg_of (ascii ''mmap'') True, cached_set = None, cached_list = None,
      cached_sorted = None\<rparr> (ascii ''banana'') = Inl SIGBUS"
proof -
  let ?s = "\<lparr>cfg = cfg_of (ascii ''mmap'') True, cached_set = None, cached_list = None,
      cached_sorted = None\<rparr>"
  have m: "ascii ''mmap'' \<noteq> ascii ''set''" "ascii ''mmap'' \<noteq> ascii ''list''"
    by (simp_all add: ascii_def)
  have "search_body (fs_truncated (''banana'' @ [CHR 0x0A])) ?s (ascii ''banana'')
          = mmap_search (fs_truncated (''banana'' @ [CHR 0x0A])) data_path (ascii ''banana'')"
    using m by (simp add: search_body_def cfg_of_def)
  then have "search_body (fs_truncated (''banana'' @ [CHR 0x0A])) ?s (ascii ''banana'')
          = Inl SIGBUS"
    by (simp only: mmap_search_truncated)
  then show ?thesis by (simp add: Searcher_search_def)
qed

text \<open>
  Claim C5, as stated, fails for one kind of read failure: a page of the memory mapping
  that cannot be read when \<open>mm.find\<close> scans it (here the dataset is cut to nothing after
  it was mapped) raises nothing that \<open>search\<close> could catch; the signal ends the process,
  and with it the connection. In reread mode with the identifier \<open>mmap\<close> the search gives
  no boolean.
\<close>

theorem search_mapped_fault_counterexample:
  "Searcher_search (fs_truncated (''banana'' @ [CHR 0x0A]))
     \<lparr>cfg = cfg_of (ascii ''mmap'') True, cached_set = None, cached_list = None,
      cached_sorted = None\<rparr> (ascii ''banana'') = Inl SIGBUS"
proof -
  let ?s = "\<lparr>cfg = cfg_of (ascii ''mmap'') True, cached_set = None, cached_list = None,
      cached_sorted = None\<rparr>"
  have m: "ascii ''mmap'' \<noteq> ascii ''set''" "ascii ''mmap'' \<noteq> ascii ''list''"
    by (simp_all add: ascii_def)
  have "search_body (fs_truncated (''banana'' @ [CHR 0x0A])) ?s (ascii ''banana'')
          = mmap_search (fs_truncated (''banana'' @ [CHR 0x0A])) data_path (ascii ''banana'')"
    using m by (simp add: search_body_def cfg_of_def)
  then have "search_body (fs_truncated (''banana'' @ [CHR 0x0A])) ?s (ascii ''banana'')
          = Inl SIGBUS"
    by (simp only: mmap_search_truncated)
  then show ?thesis by (simp add: Searcher_search_def)
qed

text \<open>
  Claim C5, amended. Every dataset I/O failure that reaches \<open>Searcher.search\<close> as an
  exception (missing file, permission denied, any other error of \<open>stat\<close>, \<open>open\<close>, reading
  or mapping) is caught inside \<open>search\<close> and resolved to false: no exception leaves
  \<open>search\<close>; what leaves its \<open>try\<close> block is an \<open>OSError\<close> or a \<open>ValueError\<close> and gives
  false; and when the dataset cannot be opened and the query has to read it (reread mode,
  or cache mode with nothing cached) the result is false. \<open>search\<close> returns a boolean
  unless the scan of the memory mapping runs into a page that cannot be read, the one
  failure that is not contained.
\<close>

theorem search_contains_raised_io_failures:
  "(\<forall>e. Searcher_search fs s q = Inl e \<longrightarrow>
        e = SIGBUS \<and> mapped_read_faults (fs (linuxpath (cfg s)))) \<and>
   (\<not> mapped_read_faults (fs (linuxpath (cfg s))) \<longrightarrow>
        (\<exists>b. Searcher_search fs s q = Inr b)) \<and>
   (\<forall>e. search_body fs s q = Inl e \<and> e \<noteq> SIGBUS \<longrightarrow>
        (is_OSError e \<or> is_ValueError e) \<and> Searcher_search fs s q = Inr False) \<and>
   (\<forall>x. path_open (fs (linuxpath (cfg s))) = Inl x \<and>
        (reread_on_query (cfg s) \<or>
         (cached_set s = None \<and> cached_list s = None \<and> cached_sorted s = None)) \<longrightarrow>
        Searcher_search fs s q = Inr False)"
proof -
  have 1: "\<forall>e. Searcher_search fs s q = Inl e \<longrightarrow>
        e = SIGBUS \<and> mapped_read_faults (fs (linuxpath (cfg s)))"
    using Searcher_search_Inl [of fs s q] by blast
  have 2: "\<not> mapped_read_faults (fs (linuxpath (cfg s))) \<longrightarrow>
        (\<exists>b. Searcher_search fs s q = Inr b)"
    using Searcher_search_Inr [of fs s q] by blast
  have 3: "\<forall>e. search_body fs s q = Inl e \<and> e \<noteq> SIGBUS \<longrightarrow>
        (is_OSError e \<or> is_ValueError e) \<and> Searcher_search fs s q = Inr False"
  proof (intro allI impI)
    fix e assume a: "search_body fs s q = Inl e \<and> e \<noteq> SIGBUS"
    then have "is_OSError e \<or> is_ValueError e"
      using search_body_Inl [of fs s q e] by blast
    moreover from a have "Searcher_search fs s q = Inr False"
      using Searcher_search_caught [of fs s q e] by blast
    ultimately show "(is_OSError e \<or> is_ValueError e) \<and> Searcher_search fs s q = Inr False"
      by (rule conjI)
  qed
  have 4: "\<forall>x. path_open (fs (linuxpath (cfg s))) = Inl x \<and>
        (reread_on_query (cfg s) \<or>
         (cached_set s = None \<and> cached_list s = None \<and> cached_sorted s = None)) \<longrightarrow>
        Searcher_search fs s q = Inr False"
  proof (intro allI impI)
    fix x
    assume a: "path_open (fs (linuxpath (cfg s))) = Inl x \<and>
        (reread_on_query (cfg s) \<or>
         (cached_set s = None \<and> cached_list s = None \<and> cached_sorted s = None))"
    then have "search_body fs s q = Inr False
        \<or> (\<exists>e. search_body fs s q = Inl e \<and> e \<noteq> SIGBUS)"
      using search_body_open_fails [of fs s x q] by blast
    then show "Searcher_search fs s q = Inr False"
    proof
      assume "search_body fs s q = Inr False"
      then show ?thesis by (simp add: Searcher_search_def)
    next
      assume "\<exists>e. search_body fs s q = Inl e \<and> e \<noteq> SIGBUS"
      then show ?thesis using Searcher_search_caught by blast
    qed
  qed
  from 1 2 3 4 show ?thesis by (intro conjI)
qed

theorem search_contains_raised_io_failures_witness:
  "search_body fs_missing
     \<lparr>cfg = cfg_of (ascii ''set'') True, cached_set = None, cached_list = None,
      cached_sorted = None\<rparr> (ascii ''apple'') = Inl FileNotFoundError \<and>
   FileNotFoundError \<noteq> SIGBUS \<and>
   path_open (fs_missing (linuxpath (cfg_of (ascii ''set'') True))) = Inl ENOENT \<and>
   reread_on_query (cfg_of (ascii ''set'') True) \<and>
   \<not> mapped_read_faults (fs_missing (linuxpath (cfg_of (ascii ''set'') True))) \<and>
   Searcher_search fs_missing
     \<lparr>cfg = cfg_of (ascii ''set'') True, cached_set = None, cached_list = None,
      cached_sorted = None\<rparr> (ascii ''apple'') = Inr False \<and>
   Searcher_search (fs_truncated (''banana'' @ [CHR 0x0A]))
     \<lparr>cfg = cfg_of (ascii ''mmap'') True, cached_set = None, cached_list = None,
      cached_sorted = None\<rparr> (ascii ''banana'') = Inl SIGBUS \<and>
   mapped_read_faults (fs_truncated (''banana'' @ [CHR 0x0A])
     (linuxpath (cfg_of (ascii ''mmap'') True)))"
proof -
  let ?s = "\<lparr>cfg = cfg_of (ascii ''set'') True, cached_set = None, cached_list = None,
      cached_sorted = None\<rparr>"
  let ?m = "\<lparr>cfg = cfg_of (ascii ''mmap'') True, cached_set = None, cached_list = None,
      cached_sorted = None\<rparr>"
  let ?ft = "fs_truncated (''banana'' @ [CHR 0x0A])"
  have b: "search_body fs_missing ?s (ascii ''apple'') = Inl FileNotFoundError"
    by (simp add: search_body_def cfg_of_def load_lines_set_def fs_missing_def missing_file_def)
  have d: "FileNotFoundError \<noteq> SIGBUS" by simp
  have o: "path_open (fs_missing (linuxpath (cfg_of (ascii ''set'') True))) = Inl ENOENT"
    by (simp add: fs_missing_def missing_file_def)
  have r: "reread_on_query (cfg_of (ascii ''set'') True)"
    by (simp add: cfg_of_def)
  have n: "\<not> mapped_read_faults (fs_missing (linuxpath (cfg_of (ascii ''set'') True)))"
    by (simp add: fs_missing_def missing_file_def)
  have f: "Searcher_search fs_missing ?s (ascii ''apple'') = Inr False"
    using search_contains_raised_io_failures [of fs_missing ?s "ascii ''apple''"] b d by blast
  have mm: "ascii ''mmap'' \<noteq> ascii ''set''" "ascii ''mmap'' \<noteq> ascii ''list''"
    by (simp_all add: ascii_def)
  have "search_body ?ft ?m (ascii ''banana'') = mmap_search ?ft data_path (ascii ''banana'')"
    using mm by (simp add: search_body_def cfg_of_def)
  then have "search_body ?ft ?m (ascii ''banana'') = Inl SIGBUS"
    by (simp only: mmap_search_truncated)
  then have k: "Searcher_search ?ft ?m (ascii ''banana'') = Inl SIGBUS"
    by (simp add: Searcher_search_def)
  have "mapped_read_faults (?ft (linuxpath (cfg ?m)))"
    using search_contains_raised_io_failures [of ?ft ?m "ascii ''banana''"] k by blast
  then have kf: "mapped_read_faults (?ft (linuxpath (cfg_of (ascii ''mmap'') True)))"
    by simp
  from b d o r n f k kf show ?thesis by (intro conjI)
qed

section \<open>Properties of the connection handler\<close>

lemma rstrip_split: "\<exists>z. s = rstrip cs s @ z \<and> set z \<subseteq> set cs"
proof -
  have "rev s = takeWhile (\<lambda>c. c \<in> set cs) (rev s) @ dropWhile (\<lambda>c. c \<in> set cs) (rev s)"
    by simp
  then have "rev (rev s) = rev (takeWhile (\<lambda>c. c \<in> set cs) (rev s) @ dropWhile (\<lambda>c. c \<in> set cs) (rev s))"
    by (simp only: )
  then have "s = rev (dropWhile (\<lambda>c. c \<in> set cs) (rev s)) @ rev (takeWhile (\<lambda>c. c \<in> set cs) (rev s))"
    by (simp only: rev_append rev_rev_ident)
  moreover have "set (rev (takeWhile (\<lambda>c. c \<in> set cs) (rev s))) \<subseteq> set cs"
    by (auto dest: set_takeWhileD)
  ultimately show ?thesis unfolding rstrip_def by blast
qed

lemma rstrip_last: "rstrip cs s \<noteq> [] \<Longrightarrow> last (rstrip cs s) \<notin> set cs"
proof -
  assume ne: "rstrip cs s \<noteq> []"
  let ?d = "dropWhile (\<lambda>c. c \<in> set cs) (rev s)"
  from ne have d: "?d \<noteq> []" by (simp add: rstrip_def)
  then have "\<not> (hd ?d \<in> set cs)" by (rule hd_dropWhile)
  moreover have "last (rev ?d) = hd ?d" using d by (simp add: last_rev)
  ultimately show ?thesis by (simp add: rstrip_def)
qed

lemma responses_append: "responses (xs @ ys) = responses xs @ responses ys"
  by (induction xs rule: responses.induct) simp_all

lemma queries_append: "queries (xs @ ys) = queries xs @ queries ys"
  by (induction xs rule: queries.induct) simp_all

lemma responses_finally: "responses (fst (handle_finally conn)) = []"
  by (simp add: handle_finally_def split: option.splits)

lemma queries_finally: "queries (fst (handle_finally conn)) = []"
  by (simp add: handle_finally_def split: option.splits)

lemma fst_handle_client:
  "fst (handle_client fs s conn)
     = fst (handle_body fs s conn)
       @ (if snd (handle_body fs s conn) = Some SIGBUS then [] else fst (handle_finally conn))"
  by (simp add: handle_client_def case_prod_beta)

lemma responses_handle_client:
  "responses (fst (handle_client fs s conn)) = responses (fst (handle_body fs s conn))"
  by (simp add: fst_handle_client responses_append responses_finally)

lemma queries_handle_client:
  "queries (fst (handle_client fs s conn)) = queries (fst (handle_body fs s conn))"
  by (simp add: fst_handle_client queries_append queries_finally)

lemma responses_body_recv_ok:
  assumes "safe_recv conn (max_payload (cfg s)) = Inr raw"
    and "Searcher_search fs s (rstrip [13, 10] (utf8_decode raw)) = Inr b"
  shows "responses (fst (handle_body fs s conn)) = [if b then STRING_EXISTS else STRING_NOT_FOUND]"
  using assms by (simp add: handle_body_def Let_def send_response_def)

lemma responses_body_search_fails:
  assumes "safe_recv conn (max_payload (cfg s)) = Inr raw"
    and "Searcher_search fs s (rstrip [13, 10] (utf8_decode raw)) = Inl e"
  shows "responses (fst (handle_body fs s conn)) = []"
  using assms by (simp add: handle_body_def Let_def)

lemma queries_body_recv_ok:
  assumes "safe_recv conn (max_payload (cfg s)) = Inr raw"
  shows "queries (fst (handle_body fs s conn)) = [rstrip [13, 10] (utf8_decode raw)]"
  using assms
  by (cases "Searcher_search fs s (rstrip [13, 10] (utf8_decode raw))")
     (simp_all add: handle_body_def Let_def send_response_def)

lemma responses_body_recv_fails:
  assumes "safe_recv conn (max_payload (cfg s)) = Inl e"
  shows "responses (fst (handle_body fs s conn)) = []"
    and "queries (fst (handle_body fs s conn)) = []"
  using assms by (simp_all add: handle_body_def)

text \<open>
  Claim C6, as stated, fails: a handled connection whose read fails gets no response. Here
  the peer resets the connection before the request arrives; \<open>recv\<close> raises, the outer
  handler logs, and \<open>sendall\<close> is never called.
\<close>

theorem handle_client_no_response_counterexample:
  "length (responses (fst (handle_client (fs_with (''banana'' @ [CHR 0x0A]))
      \<lparr>cfg = cfg_of (ascii ''set'') False, cached_set = Some {ascii ''banana''},
       cached_list = None, cached_sorted = None\<rparr>
      (conn_of (Inl ConnectionResetError))))) \<noteq> 1"
  by (simp add: responses_handle_client handle_body_def safe_recv_def sock_recv_def conn_of_def
      cfg_of_def)

text \<open>
  Claim C6, amended. When the read of the request succeeds and \<open>Searcher.search\<close> returns,
  the handler calls \<open>sendall\<close> exactly once, with \<open>STRING EXISTS\n\<close> when the search
  returned true and with \<open>STRING NOT FOUND\n\<close> when it returned false; the search does
  return unless the scan of the memory mapping faults. When the read raises, or the search
  does not return, the handler sends nothing. In every case it sends at most one response,
  and nothing but these two lines.
\<close>

theorem handle_client_response:
  "(\<forall>raw. safe_recv conn (max_payload (cfg s)) = Inr raw \<and>
          \<not> mapped_read_faults (fs (linuxpath (cfg s))) \<longrightarrow>
      (\<exists>b. Searcher_search fs s (rstrip [13, 10] (utf8_decode raw)) = Inr b \<and>
           responses (fst (handle_client fs s conn))
             = [if b then STRING_EXISTS else STRING_NOT_FOUND])) \<and>
   (\<forall>raw b. safe_recv conn (max_payload (cfg s)) = Inr raw \<and>
          Searcher_search fs s (rstrip [13, 10] (utf8_decode raw)) = Inr b \<longrightarrow>
      responses (fst (handle_client fs s conn))
        = [if b then STRING_EXISTS else STRING_NOT_FOUND]) \<and>
   (\<forall>raw e. safe_recv conn (max_payload (cfg s)) = Inr raw \<and>
          Searcher_search fs s (rstrip [13, 10] (utf8_decode raw)) = Inl e \<longrightarrow>
      responses (fst (handle_client fs s conn)) = []) \<and>
   (\<forall>e. safe_recv conn (max_payload (cfg s)) = Inl e \<longrightarrow>
      responses (fst (handle_client fs s conn)) = []) \<and>
   length (responses (fst (handle_client fs s conn))) \<le> 1 \<and>
   set (responses (fst (handle_client fs s conn))) \<subseteq> {STRING_EXISTS, STRING_NOT_FOUND} \<and>
   STRING_EXISTS = ''STRING EXISTS'' @ [CHR 0x0A] \<and>
   STRING_NOT_FOUND = ''STRING NOT FOUND'' @ [CHR 0x0A]"
proof -
  let ?r = "responses (fst (handle_client fs s conn))"
  let ?q = "\<lambda>raw. rstrip [13, 10] (utf8_decode raw)"
  have ret: "?r = [if b then STRING_EXISTS else STRING_NOT_FOUND]"
    if "safe_recv conn (max_payload (cfg s)) = Inr raw" "Searcher_search fs s (?q raw) = Inr b"
    for raw b
    using that by (simp add: responses_handle_client responses_body_recv_ok)
  have killed: "?r = []"
    if "safe_recv conn (max_payload (cfg s)) = Inr raw" "Searcher_search fs s (?q raw) = Inl e"
    for raw e
    using that by (simp add: responses_handle_client responses_body_search_fails)
  have ok: "\<exists>b. Searcher_search fs s (?q raw) = Inr b \<and>
              ?r = [if b then STRING_EXISTS else STRING_NOT_FOUND]"
    if h: "safe_recv conn (max_payload (cfg s)) = Inr raw"
       "\<not> mapped_read_faults (fs (linuxpath (cfg s)))" for raw
  proof -
    obtain b where b: "Searcher_search fs s (?q raw) = Inr b"
      using Searcher_search_Inr [of fs s "?q raw"] h(2) by blast
    with ret [OF h(1) b] show ?thesis by blast
  qed
  have bad: "?r = []" if "safe_recv conn (max_payload (cfg s)) = Inl e" for e
    using that by (simp add: responses_handle_client responses_body_recv_fails(1))
  have shape: "?r = [] \<or> ?r = [STRING_EXISTS] \<or> ?r = [STRING_NOT_FOUND]"
  proof (cases "safe_recv conn (max_payload (cfg s))")
    case (Inl e) with bad show ?thesis by simp
  next
    case (Inr raw)
    show ?thesis
    proof (cases "Searcher_search fs s (?q raw)")
      case (Inl e) with killed [OF Inr] show ?thesis by simp
    next
      case b: (Inr b) with ret [OF Inr b] show ?thesis by (cases b) simp_all
    qed
  qed
  have len: "length ?r \<le> 1" using shape by auto
  have sub: "set ?r \<subseteq> {STRING_EXISTS, STRING_NOT_FOUND}" using shape by auto
  have 1: "\<forall>raw. safe_recv conn (max_payload (cfg s)) = Inr raw \<and>
          \<not> mapped_read_faults (fs (linuxpath (cfg s))) \<longrightarrow>
      (\<exists>b. Searcher_search fs s (?q raw) = Inr b \<and>
           ?r = [if b then STRING_EXISTS else STRING_NOT_FOUND])"
    using ok by blast
  have 2: "\<forall>raw b. safe_recv conn (max_payload (cfg s)) = Inr raw \<and>
          Searcher_search fs s (?q raw) = Inr b \<longrightarrow>
      ?r = [if b then STRING_EXISTS else STRING_NOT_FOUND]"
    using ret by blast
  have 3: "\<forall>raw e. safe_recv conn (max_payload (cfg s)) = Inr raw \<and>
          Searcher_search fs s (?q raw) = Inl e \<longrightarrow> ?r = []"
    using killed by blast
  have 4: "\<forall>e. safe_recv conn (max_payload (cfg s)) = Inl e \<longrightarrow> ?r = []"
    using bad by blast
  have 5: "STRING_EXISTS = ''STRING EXISTS'' @ [CHR 0x0A]"
    and 6: "STRING_NOT_FOUND = ''STRING NOT FOUND'' @ [CHR 0x0A]"
    by (simp_all add: STRING_EXISTS_def STRING_NOT_FOUND_def)
  from 1 2 3 4 len sub 5 6 show ?thesis by (intro conjI)
qed

theorem handle_client_response_witness:
  "safe_recv (conn_of (Inr (''banana'' @ [CHR 0x0A]))) (max_payload (cfg
       \<lparr>cfg = cfg_of (ascii ''set'') False, cached_set = Some {ascii ''banana''},
        cached_list = None, cached_sorted = None\<rparr>)) = Inr (''banana'' @ [CHR 0x0A]) \<and>
   \<not> mapped_read_faults (fs_with (''banana'' @ [CHR 0x0A]) (linuxpath (cfg
       \<lparr>cfg = cfg_of (ascii ''set'') False, cached_set = Some {ascii ''banana''},
        cached_list = None, cached_sorted = None\<rparr>))) \<and>
   responses (fst (handle_client (fs_with (''banana'' @ [CHR 0x0A]))
       \<lparr>cfg = cfg_of (ascii ''set'') False, cached_set = Some {ascii ''banana''},
        cached_list = None, cached_sorted = None\<rparr>
       (conn_of (Inr (''banana'' @ [CHR 0x0A]))))) = [''STRING EXISTS'' @ [CHR 0x0A]] \<and>
   safe_recv (conn_of (Inl SocketTimeout)) (max_payload (cfg
       \<lparr>cfg = cfg_of (ascii ''set'') False, cached_set = Some {ascii ''banana''},
        cached_list = None, cached_sorted = None\<rparr>)) = Inl SocketTimeout \<and>
   responses (fst (handle_client (fs_with (''banana'' @ [CHR 0x0A]))
       \<lparr>cfg = cfg_of (ascii ''set'') False, cached_set = Some {ascii ''banana''},
        cached_list = None, cached_sorted = None\<rparr>
       (conn_of (Inl SocketTimeout)))) = [] \<and>
   safe_recv (conn_of (Inr (''banana'' @ [CHR 0x0A]))) (max_payload (cfg
       \<lparr>cfg = cfg_of (ascii ''mmap'') True, cached_set = None,
        cached_list = None, cached_sorted = None\<rparr>)) = Inr (''banana'' @ [CHR 0x0A]) \<and>
   Searcher_search (fs_truncated (''banana'' @ [CHR 0x0A]))
       \<lparr>cfg = cfg_of (ascii ''mmap'') True, cached_set = None,
        cached_list = None, cached_sorted = None\<rparr>
       (rstrip [13, 10] (utf8_decode (''banana'' @ [CHR 0x0A]))) = Inl SIGBUS \<and>
   responses (fst (handle_client (fs_truncated (''banana'' @ [CHR 0x0A]))
       \<lparr>cfg = cfg_of (ascii ''mmap'') True, cached_set = None,
        cached_list = None, cached_sorted = None\<rparr>
       (conn_of (Inr (''banana'' @ [CHR 0x0A]))))) = []"
proof -
  let ?s = "\<lparr>cfg = cfg_of (ascii ''set'') False, cached_set = Some {ascii ''banana''},
        cached_list = None, cached_sorted = None\<rparr>"
  let ?m = "\<lparr>cfg = cfg_of (ascii ''mmap'') True, cached_set = None,
        cached_list = None, cached_sorted = None\<rparr>"
  let ?fs = "fs_with (''banana'' @ [CHR 0x0A])"
  let ?ft = "fs_truncated (''banana'' @ [CHR 0x0A])"
  let ?c1 = "conn_of (Inr (''banana'' @ [CHR 0x0A]))"
  let ?c2 = "conn_of (Inl SocketTimeout)"
  have r1: "safe_recv ?c1 (max_payload (cfg ?s)) = Inr (''banana'' @ [CHR 0x0A])"
    by (simp add: safe_recv_def sock_recv_def conn_of_def cfg_of_def rstrip_def)
  have nf: "\<not> mapped_read_faults (?fs (linuxpath (cfg ?s)))"
    by (simp add: fs_with_def regular_file_def missing_file_def)
  have q: "rstrip [13, 10] (utf8_decode (''banana'' @ [CHR 0x0A])) = ascii ''banana''"
    by (simp add: rstrip_def utf8_decode_def ascii_def)
  have f: "Searcher_search ?fs ?s (ascii ''banana'') = Inr True"
    by (simp add: Searcher_search_def search_body_def cfg_of_def)
  have r2: "safe_recv ?c2 (max_payload (cfg ?s)) = Inl SocketTimeout"
    by (simp add: safe_recv_def sock_recv_def conn_of_def cfg_of_def)
  have r3: "safe_recv ?c1 (max_payload (cfg ?m)) = Inr (''banana'' @ [CHR 0x0A])"
    by (simp add: safe_recv_def sock_recv_def conn_of_def cfg_of_def rstrip_def)
  have k: "Searcher_search ?ft ?m (rstrip [13, 10] (utf8_decode (''banana'' @ [CHR 0x0A])))
             = Inl SIGBUS"
    by (simp only: q search_killed_on_truncated)
  from handle_client_response [of ?c1 ?s ?fs] r1 nf
  obtain b where b: "Searcher_search ?fs ?s (rstrip [13, 10] (utf8_decode (''banana'' @ [CHR 0x0A]))) = Inr b"
      "responses (fst (handle_client ?fs ?s ?c1)) = [if b then STRING_EXISTS else STRING_NOT_FOUND]"
    by blast
  from b(1) q f have "b" by simp
  with b(2) have a1: "responses (fst (handle_client ?fs ?s ?c1)) = [''STRING EXISTS'' @ [CHR 0x0A]]"
    by (simp add: STRING_EXISTS_def)
  have a2: "responses (fst (handle_client ?fs ?s ?c2)) = []"
    using handle_client_response [of ?c2 ?s ?fs] r2 by blast
  have a3: "responses (fst (handle_client ?ft ?m ?c1)) = []"
    using handle_client_response [of ?c1 ?m ?ft] r3 k by blast
  from r1 nf a1 r2 a2 r3 k a3 show ?thesis by (intro conjI)
qed

lemma sock_recv_Inr:
  "sock_recv conn n = Inr payload \<Longrightarrow>
   0 \<le> n \<and> (\<exists>data. recv_result conn = Inr data \<and> payload = take (nat n) data)"
  by (auto simp: sock_recv_def split: if_splits sum.splits)

text \<open>
  Claim C7, as stated, fails in its last part: NUL bytes are not stripped from the query.
  \<open>safe_recv\<close> strips the NUL bytes at the very end of the payload only, so a NUL in front
  of the line end stays: the payload \<open>abc\0\n\<close> gives the query \<open>abc\0\<close>.
\<close>

theorem query_keeps_nul_counterexample:
  "queries (fst (handle_client (fs_with (''banana'' @ [CHR 0x0A]))
      \<lparr>cfg = cfg_of (ascii ''set'') False, cached_set = Some {ascii ''banana''},
       cached_list = None, cached_sorted = None\<rparr>
      (conn_of (Inr (''abc'' @ [CHR 0x00, CHR 0x0A]))))) = [ascii ''abc'' @ [0]]"
proof -
  let ?s = "\<lparr>cfg = cfg_of (ascii ''set'') False, cached_set = Some {ascii ''banana''},
       cached_list = None, cached_sorted = None\<rparr>"
  let ?conn = "conn_of (Inr (''abc'' @ [CHR 0x00, CHR 0x0A]))"
  have r: "safe_recv ?conn (max_payload (cfg ?s)) = Inr (''abc'' @ [CHR 0x00, CHR 0x0A])"
    by (simp add: safe_recv_def sock_recv_def conn_of_def cfg_of_def rstrip_def)
  have q: "rstrip [13, 10] (utf8_decode (''abc'' @ [CHR 0x00, CHR 0x0A])) = ascii ''abc'' @ [0]"
    by (simp add: rstrip_def utf8_decode_def ascii_def)
  from queries_body_recv_ok [OF r, of "fs_with (''banana'' @ [CHR 0x0A])"] q show ?thesis
    by (simp only: queries_handle_client)
qed

text \<open>
  Claim C7, amended. When \<open>recv\<close> returns, the payload is at most \<open>max_payload\<close> bytes,
  and the query passed to \<open>Searcher.search\<close> is that payload with its trailing NUL bytes
  stripped, then decoded with replacement, then with its trailing carriage returns and
  line feeds stripped. What the first step removes is a run of NUL bytes at the end of the
  payload, and what it leaves does not end in NUL; what the last step removes is a run of
  CR and LF at the end of the text, and the query does not end in either. NUL bytes
  elsewhere in the payload stay in the query.
\<close>

theorem handler_query_pipeline:
  assumes "sock_recv conn (max_payload (cfg s)) = Inr payload"
    and "raw = rstrip [CHR 0x00] payload"
    and "query = rstrip [13, 10] (utf8_decode raw)"
  shows "queries (fst (handle_client fs s conn)) = [query] \<and>
         int (length payload) \<le> max_payload (cfg s) \<and>
         (\<exists>z. payload = raw @ z \<and> set z \<subseteq> {CHR 0x00}) \<and>
         (raw \<noteq> [] \<longrightarrow> last raw \<noteq> CHR 0x00) \<and>
         (\<exists>z. utf8_decode raw = query @ z \<and> set z \<subseteq> {13, 10}) \<and>
         (query \<noteq> [] \<longrightarrow> last query \<noteq> 13 \<and> last query \<noteq> 10)"
proof -
  have r: "safe_recv conn (max_payload (cfg s)) = Inr raw"
    using assms(1,2) by (simp add: safe_recv_def)
  from queries_body_recv_ok [OF r, of fs]
  have 1: "queries (fst (handle_client fs s conn)) = [query]"
    by (simp only: queries_handle_client assms(3))
  have 2: "int (length payload) \<le> max_payload (cfg s)"
    using sock_recv_Inr [OF assms(1)] by auto
  have 3: "\<exists>z. payload = raw @ z \<and> set z \<subseteq> {CHR 0x00}"
    using rstrip_split [of payload "[CHR 0x00]"] assms(2) by simp
  have 4: "raw \<noteq> [] \<longrightarrow> last raw \<noteq> CHR 0x00"
    using rstrip_last [of "[CHR 0x00]" payload] assms(2) by simp
  have 5: "\<exists>z. utf8_decode raw = query @ z \<and> set z \<subseteq> {13, 10}"
    using rstrip_split [of "utf8_decode raw" "[13, 10]"] assms(3) by simp
  have 6: "query \<noteq> [] \<longrightarrow> last query \<noteq> 13 \<and> last query \<noteq> 10"
    using rstrip_last [of "[13, 10]" "utf8_decode raw"] assms(3) by simp
  from 1 2 3 4 5 6 show ?thesis by (intro conjI)
qed

theorem handler_query_pipeline_witness:
  "sock_recv (conn_of (Inr (''pear'' @ [CHR 0x0D, CHR 0x0A, CHR 0x00, CHR 0x00])))
     (max_payload (cfg \<lparr>cfg = cfg_of (ascii ''set'') False,
       cached_set = Some {ascii ''banana''}, cached_list = None, cached_sorted = None\<rparr>))
     = Inr (''pear'' @ [CHR 0x0D, CHR 0x0A, CHR 0x00, CHR 0x00]) \<and>
   queries (fst (handle_client (fs_with (''banana'' @ [CHR 0x0A]))
      \<lparr>cfg = cfg_of (ascii ''set'') False, cached_set = Some {ascii ''banana''},
       cached_list = None, cached_sorted = None\<rparr>
      (conn_of (Inr (''pear'' @ [CHR 0x0D, CHR 0x0A, CHR 0x00, CHR 0x00]))))) = [ascii ''pear'']"
proof -
  let ?s = "\<lparr>cfg = cfg_of (ascii ''set'') False, cached_set = Some {ascii ''banana''},
       cached_list = None, cached_sorted = None\<rparr>"
  let ?d = "''pear'' @ [CHR 0x0D, CHR 0x0A, CHR 0x00, CHR 0x00]"
  have h1: "sock_recv (conn_of (Inr ?d)) (max_payload (cfg ?s)) = Inr ?d"
    by (simp add: sock_recv_def conn_of_def cfg_of_def)
  have h2: "''pear'' @ [CHR 0x0D, CHR 0x0A] = rstrip [CHR 0x00] ?d" by (simp add: rstrip_def)
  have h3: "ascii ''pear'' = rstrip [13, 10] (utf8_decode (''pear'' @ [CHR 0x0D, CHR 0x0A]))"
    by (simp add: rstrip_def utf8_decode_def ascii_def)
  from handler_query_pipeline [OF h1 h2 h3, of "fs_with (''banana'' @ [CHR 0x0A])"]
  have "queries (fst (handle_client (fs_with (''banana'' @ [CHR 0x0A])) ?s (conn_of (Inr ?d))))
          = [ascii ''pear'']"
    by (rule conjunct1)
  with h1 show ?thesis by (intro conjI)
qed

section \<open>The searcher after a failed preload, and the strategies it reaches\<close>

lemma preload_open_fails:
  "path_open (fs0 (linuxpath (cfg s))) = Inl x \<Longrightarrow> preload fs0 s = Inr s"
  by (simp add: preload_def preload_body_def Let_def load_lines_set_def load_lines_list_def)

lemma Searcher_init_open_fails:
  "\<not> reread_on_query c \<Longrightarrow> path_open (fs0 (linuxpath c)) = Inl x \<Longrightarrow>
   Searcher_init fs0 c
     = Inr \<lparr>cfg = c, cached_set = None, cached_list = None, cached_sorted = None\<rparr>"
  by (simp add: Searcher_init_def preload_open_fails)

lemma search_body_no_cache:
  "\<not> reread_on_query (cfg s) \<Longrightarrow> cached_set s = None \<Longrightarrow> cached_list s = None \<Longrightarrow>
   cached_sorted s = None \<Longrightarrow> search_body fs s q = mmap_search fs (linuxpath (cfg s)) q"
  by (simp add: search_body_def Let_def)

lemma mmap_search_missing: "\<not> path_exists (fs p) \<Longrightarrow> mmap_search fs p q = Inr False"
  by (simp add: mmap_search_def)

lemma ascii_ids:
  "ascii ''grep'' \<noteq> ascii ''set''" "ascii ''grep'' \<noteq> ascii ''list''"
  "ascii ''grep'' \<noteq> ascii ''mmap''" "ascii ''grep'' \<noteq> ascii ''binary''"
  "ascii ''mmap'' \<noteq> ascii ''set''" "ascii ''mmap'' \<noteq> ascii ''list''"
  "ascii ''binary'' \<noteq> ascii ''set''" "ascii ''binary'' \<noteq> ascii ''list''"
  "ascii ''binary'' \<noteq> ascii ''mmap''" "ascii ''list'' \<noteq> ascii ''set''"
  by (simp_all add: ascii_def)

lemma mmap_search_apple_lf:
  "mmap_search (fs_with (''apple'' @ [CHR 0x0A])) data_path (ascii ''apple'') = Inr True"
  by (simp add: mmap_search_def mmap_find_def fs_with_def regular_file_def utf8_encode_def
      utf8_encode_cp_def is_surrogate_def char_of_def bit_0 ascii_def bytes_find_def)

lemma mmap_search_apple_no_lf:
  "mmap_search (fs_with ''apple'') data_path (ascii ''apple'') = Inr False"
  by (simp add: mmap_search_def mmap_find_def fs_with_def regular_file_def utf8_encode_def
      utf8_encode_cp_def is_surrogate_def char_of_def bit_0 ascii_def bytes_find_def)


text \<open>
  Claim C8, as stated, fails: after a preload that found no dataset, queries do not stay
  false until a restart. With nothing cached, \<open>Searcher.search\<close> falls back to
  \<open>mmap_search\<close>, which reads the file at each query; once the file is there, the same
  searcher finds its lines.
\<close>

theorem cache_mode_recovers_without_restart_counterexample:
  "init_then_search fs_missing (cfg_of (ascii ''set'') False)
     (fs_with (''apple'' @ [CHR 0x0A])) (ascii ''apple'') = Inr True"
proof -
  let ?c = "cfg_of (ascii ''set'') False"
  let ?s = "\<lparr>cfg = ?c, cached_set = None, cached_list = None, cached_sorted = None\<rparr>"
  have i: "Searcher_init fs_missing ?c = Inr ?s"
    by (rule Searcher_init_open_fails [where x = ENOENT])
       (simp_all add: cfg_of_def fs_missing_def missing_file_def)
  have "search_body (fs_with (''apple'' @ [CHR 0x0A])) ?s (ascii ''apple'')
          = mmap_search (fs_with (''apple'' @ [CHR 0x0A])) (linuxpath (cfg ?s)) (ascii ''apple'')"
    by (rule search_body_no_cache) (simp_all add: cfg_of_def)
  also have "linuxpath (cfg ?s) = data_path" by (simp add: cfg_of_def)
  finally have "search_body (fs_with (''apple'' @ [CHR 0x0A])) ?s (ascii ''apple'') = Inr True"
    by (simp only: mmap_search_apple_lf)
  then have "Searcher_search (fs_with (''apple'' @ [CHR 0x0A])) ?s (ascii ''apple'') = Inr True"
    by (simp add: Searcher_search_def)
  with i show ?thesis by (simp add: init_then_search_def)
qed


text \<open>
  Claim C8, amended. In cache mode, when the dataset is missing at preload time,
  \<open>Searcher.__init__\<close> raises nothing and leaves the three caches empty, so the server
  starts. Every later query is answered by \<open>mmap_search\<close> on the file as it is at that
  query: false for as long as the file is missing or cannot be opened, and answered from
  the file, with no restart, once it is there (with a boolean, unless the scan of the
  mapping faults).
\<close>

theorem missing_dataset_at_preload:
  assumes "\<not> reread_on_query c"
    and "path_open (fs0 (linuxpath c)) = Inl ENOENT"
  shows "Searcher_init fs0 c
           = Inr \<lparr>cfg = c, cached_set = None, cached_list = None, cached_sorted = None\<rparr> \<and>
         (\<not> mapped_read_faults (fs (linuxpath c)) \<longrightarrow>
            (\<exists>b. init_then_search fs0 c fs q = Inr b)) \<and>
         (\<not> path_exists (fs (linuxpath c)) \<longrightarrow> init_then_search fs0 c fs q = Inr False) \<and>
         (\<forall>x. path_open (fs (linuxpath c)) = Inl x \<longrightarrow>
              init_then_search fs0 c fs q = Inr False) \<and>
         search_body fs \<lparr>cfg = c, cached_set = None, cached_list = None, cached_sorted = None\<rparr> q
           = mmap_search fs (linuxpath c) q"
proof -
  let ?s = "\<lparr>cfg = c, cached_set = None, cached_list = None, cached_sorted = None\<rparr>"
  have i: "Searcher_init fs0 c = Inr ?s"
    using assms by (rule Searcher_init_open_fails)
  then have its: "init_then_search fs0 c fs q = Searcher_search fs ?s q"
    by (simp add: init_then_search_def)
  have sb: "search_body fs ?s q = mmap_search fs (linuxpath c) q"
    using search_body_no_cache [of ?s fs q] assms(1) by simp
  have ex: "\<exists>b. init_then_search fs0 c fs q = Inr b"
    if "\<not> mapped_read_faults (fs (linuxpath c))"
    using Searcher_search_Inr [of fs ?s q] its that by simp
  have miss: "init_then_search fs0 c fs q = Inr False" if "\<not> path_exists (fs (linuxpath c))"
    using that its sb by (simp add: Searcher_search_def mmap_search_missing)
  have unread: "init_then_search fs0 c fs q = Inr False"
    if "path_open (fs (linuxpath c)) = Inl x" for x
  proof -
    have "search_body fs ?s q = Inr False
        \<or> (\<exists>e. search_body fs ?s q = Inl e \<and> e \<noteq> SIGBUS)"
      using search_body_open_fails [of fs ?s x q] that by simp
    then have "Searcher_search fs ?s q = Inr False"
      using Searcher_search_caught [of fs ?s q] by (auto simp: Searcher_search_def)
    with its show ?thesis by simp
  qed
  from i ex miss unread sb show ?thesis by blast
qed


theorem missing_dataset_at_preload_witness:
  "\<not> reread_on_query (cfg_of (ascii ''set'') False) \<and>
   path_open (fs_missing (linuxpath (cfg_of (ascii ''set'') False))) = Inl ENOENT \<and>
   \<not> path_exists (fs_missing (linuxpath (cfg_of (ascii ''set'') False))) \<and>
   \<not> mapped_read_faults (fs_missing (linuxpath (cfg_of (ascii ''set'') False))) \<and>
   Searcher_init fs_missing (cfg_of (ascii ''set'') False)
     = Inr \<lparr>cfg = cfg_of (ascii ''set'') False, cached_set = None, cached_list = None,
            cached_sorted = None\<rparr> \<and>
   (\<exists>b. init_then_search fs_missing (cfg_of (ascii ''set'') False) fs_missing (ascii ''apple'')
     = Inr b) \<and>
   init_then_search fs_missing (cfg_of (ascii ''set'') False) fs_missing (ascii ''apple'')
     = Inr False"
proof -
  let ?c = "cfg_of (ascii ''set'') False"
  have h1: "\<not> reread_on_query ?c" by (simp add: cfg_of_def)
  have h2: "path_open (fs_missing (linuxpath ?c)) = Inl ENOENT"
    by (simp add: fs_missing_def missing_file_def)
  have h3: "\<not> path_exists (fs_missing (linuxpath ?c))"
    by (simp add: fs_missing_def missing_file_def)
  have t: "Searcher_init fs_missing ?c
         = Inr \<lparr>cfg = ?c, cached_set = None, cached_list = None, cached_sorted = None\<rparr> \<and>
       (\<not> mapped_read_faults (fs_missing (linuxpath ?c)) \<longrightarrow>
          (\<exists>b. init_then_search fs_missing ?c fs_missing (ascii ''apple'') = Inr b)) \<and>
       (\<not> path_exists (fs_missing (linuxpath ?c)) \<longrightarrow>
          init_then_search fs_missing ?c fs_missing (ascii ''apple'') = Inr False) \<and>
       (\<forall>x. path_open (fs_missing (linuxpath ?c)) = Inl x \<longrightarrow>
          init_then_search fs_missing ?c fs_missing (ascii ''apple'') = Inr False) \<and>
       search_body fs_missing
          \<lparr>cfg = ?c, cached_set = None, cached_list = None, cached_sorted = None\<rparr>
          (ascii ''apple'') = mmap_search fs_missing (linuxpath ?c) (ascii ''apple'')"
    using h1 h2
    by (rule missing_dataset_at_preload
          [where c = "?c" and ?fs0.0 = fs_missing and fs = fs_missing and q = "ascii ''apple''"])
  from t have a: "Searcher_init fs_missing ?c
     = Inr \<lparr>cfg = ?c, cached_set = None, cached_list = None, cached_sorted = None\<rparr>"
    by (rule conjunct1)
  from t h3 have b: "init_then_search fs_missing ?c fs_missing (ascii ''apple'') = Inr False"
    by blast
  have h4: "\<not> mapped_read_faults (fs_missing (linuxpath ?c))"
    by (simp add: fs_missing_def missing_file_def)
  from t h4 have e: "\<exists>b. init_then_search fs_missing ?c fs_missing (ascii ''apple'') = Inr b"
    by blast
  from h1 h2 h3 h4 a e b show ?thesis by (intro conjI)
qed

lemma search_body_reread_fallback:
  "reread_on_query (cfg s) \<Longrightarrow> default_algorithm (cfg s) \<noteq> ascii ''set'' \<Longrightarrow>
   default_algorithm (cfg s) \<noteq> ascii ''list'' \<Longrightarrow>
   default_algorithm (cfg s) \<noteq> ascii ''binary'' \<Longrightarrow>
   search_body fs s q = mmap_search fs (linuxpath (cfg s)) q"
  by (simp add: search_body_def Let_def)

lemma Searcher_search_of_body:
  "search_body fs s q = Inr b \<Longrightarrow> Searcher_search fs s q = Inr b"
  by (simp add: Searcher_search_def)

lemma init_then_search_reread:
  "init_then_search fs0 (cfg_of alg True) fs q
     = Searcher_search fs
         \<lparr>cfg = cfg_of alg True, cached_set = None, cached_list = None, cached_sorted = None\<rparr> q"
  by (simp add: init_then_search_def reread_searcher)

lemma reread_fallback_cfg_of:
  "alg \<noteq> ascii ''set'' \<Longrightarrow> alg \<noteq> ascii ''list'' \<Longrightarrow> alg \<noteq> ascii ''binary'' \<Longrightarrow>
   mmap_search fs data_path q = Inr b \<Longrightarrow>
   init_then_search fs0 (cfg_of alg True) fs q = Inr b"
proof -
  assume a: "alg \<noteq> ascii ''set''" "alg \<noteq> ascii ''list''" "alg \<noteq> ascii ''binary''"
    and m: "mmap_search fs data_path q = Inr b"
  let ?s = "\<lparr>cfg = cfg_of alg True, cached_set = None, cached_list = None, cached_sorted = None\<rparr>"
  have "search_body fs ?s q = mmap_search fs (linuxpath (cfg ?s)) q"
    by (rule search_body_reread_fallback) (simp_all add: cfg_of_def a)
  also have "linuxpath (cfg ?s) = data_path" by (simp add: cfg_of_def)
  finally have "search_body fs ?s q = Inr b" using m by simp
  then show ?thesis
    by (simp only: init_then_search_reread Searcher_search_of_body)
qed


text \<open>
  The strategies that build the lines of the file match whole lines: in reread mode the
  identifiers \<open>set\<close>, \<open>list\<close> and \<open>binary\<close> answer whether the query is a line of the
  file as it is at the query, and in cache mode every identifier answers whether it is a
  line of the file as it was at the preload.
\<close>

lemma search_exact_line_reread:
  assumes "reread_on_query (cfg s)"
    and "path_open (fs (linuxpath (cfg s))) = Inr bs"
    and "default_algorithm (cfg s) = ascii ''set'' \<or> default_algorithm (cfg s) = ascii ''list''
         \<or> default_algorithm (cfg s) = ascii ''binary''"
  shows "Searcher_search fs s q
           = Inr (q \<in> set (map (rstrip [10]) (readlines (utf8_decode bs))))"
proof -
  let ?ls = "map (rstrip [10]) (readlines (utf8_decode bs))"
  have l: "load_lines_list fs (linuxpath (cfg s)) = Inr ?ls"
    and t: "load_lines_set fs (linuxpath (cfg s)) = Inr (set ?ls)"
    using assms(2) by (simp_all add: load_lines_list_def load_lines_set_def)
  have b: "binary_search_sorted (map PStr (sort ?ls)) (PStr q) = Inr (q \<in> set ?ls)"
    using binary_search_sorted_mem [of "sort ?ls" q] by simp
  have "search_body fs s q = Inr (q \<in> set ?ls)"
    using assms(1,3) l t b
    by (auto simp: search_body_def Let_def ascii_ids)
  then show ?thesis by (rule Searcher_search_of_body)
qed

lemma search_exact_line_cache:
  assumes "\<not> reread_on_query c"
    and "path_open (fs0 (linuxpath c)) = Inr bs"
  shows "init_then_search fs0 c fs q
           = Inr (q \<in> set (map (rstrip [10]) (readlines (utf8_decode bs))))"
proof -
  let ?ls = "map (rstrip [10]) (readlines (utf8_decode bs))"
  let ?s = "\<lparr>cfg = c, cached_set = None, cached_list = None, cached_sorted = None\<rparr>"
  have l: "load_lines_list fs0 (linuxpath c) = Inr ?ls"
    and t: "load_lines_set fs0 (linuxpath c) = Inr (set ?ls)"
    using assms(2) by (simp_all add: load_lines_list_def load_lines_set_def)
  have b: "binary_search_sorted (map PStr (sort ?ls)) (PStr q) = Inr (q \<in> set ?ls)"
    using binary_search_sorted_mem [of "sort ?ls" q] by simp
  consider (set) "default_algorithm c = ascii ''set''"
    | (list) "default_algorithm c \<noteq> ascii ''set''" "default_algorithm c = ascii ''list''"
    | (binary) "default_algorithm c \<noteq> ascii ''set''" "default_algorithm c \<noteq> ascii ''list''"
        "default_algorithm c = ascii ''binary''"
    | (other) "default_algorithm c \<noteq> ascii ''set''" "default_algorithm c \<noteq> ascii ''list''"
        "default_algorithm c \<noteq> ascii ''binary''"
    by blast
  then show ?thesis
  proof cases
    case set
    then have "Searcher_init fs0 c = Inr (?s\<lparr>cached_set := Some (set ?ls)\<rparr>)"
      using assms(1) t by (simp add: Searcher_init_def preload_def preload_body_def)
    then show ?thesis
      using assms(1) by (simp add: init_then_search_def Searcher_search_def search_body_def)
  next
    case list
    then have "Searcher_init fs0 c = Inr (?s\<lparr>cached_list := Some ?ls\<rparr>)"
      using assms(1) l by (simp add: Searcher_init_def preload_def preload_body_def)
    then show ?thesis
      using assms(1) by (simp add: init_then_search_def Searcher_search_def search_body_def)
  next
    case binary
    then have "Searcher_init fs0 c = Inr (?s\<lparr>cached_sorted := Some (sort ?ls)\<rparr>)"
      using assms(1) l by (simp add: Searcher_init_def preload_def preload_body_def)
    then show ?thesis
      using assms(1) b
      by (simp add: init_then_search_def Searcher_search_def search_body_def)
  next
    case other
    then have "Searcher_init fs0 c = Inr (?s\<lparr>cached_set := Some (set ?ls)\<rparr>)"
      using assms(1) t by (simp add: Searcher_init_def preload_def preload_body_def)
    then show ?thesis
      using assms(1) by (simp add: init_then_search_def Searcher_search_def search_body_def)
  qed
qed

lemma Searcher_init_set:
  assumes "\<not> reread_on_query c"
    and "default_algorithm c \<noteq> ascii ''list''" and "default_algorithm c \<noteq> ascii ''binary''"
    and "path_open (fs0 (linuxpath c)) = Inr bs"
  shows "Searcher_init fs0 c
           = Inr \<lparr>cfg = c,
                  cached_set = Some (set (map (rstrip [10]) (readlines (utf8_decode bs)))),
                  cached_list = None, cached_sorted = None\<rparr>"
  using assms
  by (simp add: Searcher_init_def preload_def preload_body_def Let_def load_lines_set_def)

lemma Searcher_search_cached_set:
  "\<not> reread_on_query (cfg s) \<Longrightarrow> cached_set s = Some ls \<Longrightarrow>
   Searcher_search fs s q = Inr (q \<in> ls)"
  by (simp add: Searcher_search_def search_body_def Let_def)

lemma grep_subprocess_apple:
  "grep_subprocess (fs_with ''apple'') grep_finds data_path (ascii ''apple'') = Inr True"
  by (simp add: grep_subprocess_def grep_run_def grep_finds_def fs_with_def regular_file_def)


text \<open>
  Claim C3, as stated, fails: \<open>Searcher.search\<close> never spawns the external utility, under
  any strategy identifier. With the identifier \<open>grep\<close> in reread mode it runs the
  memory-mapped scan; on a dataset whose only line \<open>apple\<close> has no line end, \<open>grep -x\<close>
  exits with status 0 and \<open>grep_subprocess\<close> returns true, while the search returns false.
\<close>

theorem search_ignores_grep_counterexample:
  "init_then_search (fs_with ''apple'') (cfg_of (ascii ''grep'') True) (fs_with ''apple'')
     (ascii ''apple'')
   \<noteq> grep_subprocess (fs_with ''apple'') grep_finds data_path (ascii ''apple'')"
proof -
  have "init_then_search (fs_with ''apple'') (cfg_of (ascii ''grep'') True) (fs_with ''apple'')
     (ascii ''apple'') = Inr False"
    by (rule reread_fallback_cfg_of [OF _ _ _ mmap_search_apple_no_lf])
       (simp_all add: ascii_def)
  then show ?thesis by (simp add: grep_subprocess_apple)
qed


text \<open>
  Claim C3, amended. \<open>grep_subprocess\<close> itself spawns \<open>grep -x -- needle path\<close> on an
  existing dataset path and returns whether the exit status is 0; the expiry of the
  timeout, and a missing path, give false. \<open>Searcher.search\<close> does not call it: with the
  identifier \<open>grep\<close> it answers by \<open>mmap_search\<close> in reread mode (its \<open>try\<close> block is that
  call, and a boolean of the scan is the result of the search); in cache mode the preload
  builds the set of lines as for \<open>set\<close>, and \<open>Searcher.search\<close> answers whether the query
  is in that set, whatever the file has become since.
\<close>

theorem grep_subprocess_exit_status:
  "(path_exists (fs p) \<and>
      spawn [ascii ''grep'', ascii ''-x'', ascii ''--'', q, p] = Exited returncode \<longrightarrow>
      grep_subprocess fs spawn p q = Inr (returncode = 0)) \<and>
   (spawn [ascii ''grep'', ascii ''-x'', ascii ''--'', q, p] = TimedOut \<longrightarrow>
      grep_subprocess fs spawn p q = Inr False) \<and>
   (\<not> path_exists (fs p) \<longrightarrow> grep_subprocess fs spawn p q = Inr False) \<and>
   (default_algorithm (cfg s) = ascii ''grep'' \<and> reread_on_query (cfg s) \<longrightarrow>
      search_body fs s q = mmap_search fs (linuxpath (cfg s)) q) \<and>
   (default_algorithm (cfg s) = ascii ''grep'' \<and> \<not> reread_on_query (cfg s) \<longrightarrow>
      preload_body fs s
        = (case load_lines_set fs (linuxpath (cfg s)) of
             Inl e \<Rightarrow> Inl e
           | Inr ls \<Rightarrow> Inr (s\<lparr>cached_set := Some ls\<rparr>))) \<and>
   (default_algorithm (cfg s) = ascii ''grep'' \<and> reread_on_query (cfg s) \<and>
      mmap_search fs (linuxpath (cfg s)) q = Inr found \<longrightarrow>
      Searcher_search fs s q = Inr found) \<and>
   (default_algorithm c = ascii ''grep'' \<and> \<not> reread_on_query c \<and>
      path_open (fs0 (linuxpath c)) = Inr bs \<longrightarrow>
      Searcher_init fs0 c
        = Inr \<lparr>cfg = c,
               cached_set = Some (set (map (rstrip [10]) (readlines (utf8_decode bs)))),
               cached_list = None, cached_sorted = None\<rparr> \<and>
      Searcher_search fs
          \<lparr>cfg = c,
           cached_set = Some (set (map (rstrip [10]) (readlines (utf8_decode bs)))),
           cached_list = None, cached_sorted = None\<rparr> q
        = Inr (q \<in> set (map (rstrip [10]) (readlines (utf8_decode bs)))) \<and>
      init_then_search fs0 c fs q
        = Inr (q \<in> set (map (rstrip [10]) (readlines (utf8_decode bs)))))"
proof (intro conjI impI)
  assume "path_exists (fs p) \<and>
      spawn [ascii ''grep'', ascii ''-x'', ascii ''--'', q, p] = Exited returncode"
  then show "grep_subprocess fs spawn p q = Inr (returncode = 0)"
    by (simp add: grep_subprocess_def grep_run_def)
next
  assume "spawn [ascii ''grep'', ascii ''-x'', ascii ''--'', q, p] = TimedOut"
  then show "grep_subprocess fs spawn p q = Inr False"
    by (simp add: grep_subprocess_def grep_run_def)
next
  assume "\<not> path_exists (fs p)"
  then show "grep_subprocess fs spawn p q = Inr False"
    by (simp add: grep_subprocess_def)
next
  assume "default_algorithm (cfg s) = ascii ''grep'' \<and> reread_on_query (cfg s)"
  then show "search_body fs s q = mmap_search fs (linuxpath (cfg s)) q"
    by (intro search_body_reread_fallback) (simp_all add: ascii_ids)
next
  assume "default_algorithm (cfg s) = ascii ''grep'' \<and> \<not> reread_on_query (cfg s)"
  then show "preload_body fs s
        = (case load_lines_set fs (linuxpath (cfg s)) of
             Inl e \<Rightarrow> Inl e
           | Inr ls \<Rightarrow> Inr (s\<lparr>cached_set := Some ls\<rparr>))"
    by (simp add: preload_body_def Let_def ascii_ids)
next
  assume a: "default_algorithm (cfg s) = ascii ''grep'' \<and> reread_on_query (cfg s) \<and>
      mmap_search fs (linuxpath (cfg s)) q = Inr found"
  then have "search_body fs s q = mmap_search fs (linuxpath (cfg s)) q"
    by (intro search_body_reread_fallback) (simp_all add: ascii_ids)
  with a have "search_body fs s q = Inr found" by simp
  then show "Searcher_search fs s q = Inr found" by (rule Searcher_search_of_body)
next
  assume a: "default_algorithm c = ascii ''grep'' \<and> \<not> reread_on_query c \<and>
      path_open (fs0 (linuxpath c)) = Inr bs"
  then show "Searcher_init fs0 c
        = Inr \<lparr>cfg = c,
               cached_set = Some (set (map (rstrip [10]) (readlines (utf8_decode bs)))),
               cached_list = None, cached_sorted = None\<rparr>"
    by (intro Searcher_init_set) (simp_all add: ascii_ids)
next
  assume a: "default_algorithm c = ascii ''grep'' \<and> \<not> reread_on_query c \<and>
      path_open (fs0 (linuxpath c)) = Inr bs"
  then show "Searcher_search fs
          \<lparr>cfg = c,
           cached_set = Some (set (map (rstrip [10]) (readlines (utf8_decode bs)))),
           cached_list = None, cached_sorted = None\<rparr> q
        = Inr (q \<in> set (map (rstrip [10]) (readlines (utf8_decode bs))))"
    by (intro Searcher_search_cached_set) simp_all
next
  assume a: "default_algorithm c = ascii ''grep'' \<and> \<not> reread_on_query c \<and>
      path_open (fs0 (linuxpath c)) = Inr bs"
  then show "init_then_search fs0 c fs q
        = Inr (q \<in> set (map (rstrip [10]) (readlines (utf8_decode bs))))"
    by (intro search_exact_line_cache) simp_all
qed

theorem grep_subprocess_exit_status_witness:
  "path_exists (fs_with ''apple'' data_path) \<and>
   grep_finds [ascii ''grep'', ascii ''-x'', ascii ''--'', ascii ''apple'', data_path] = Exited 0 \<and>
   grep_subprocess (fs_with ''apple'') grep_finds data_path (ascii ''apple'') = Inr True \<and>
   grep_hangs [ascii ''grep'', ascii ''-x'', ascii ''--'', ascii ''apple'', data_path] = TimedOut \<and>
   grep_subprocess (fs_with ''apple'') grep_hangs data_path (ascii ''apple'') = Inr False \<and>
   \<not> path_exists (fs_missing data_path) \<and>
   grep_subprocess fs_missing grep_finds data_path (ascii ''apple'') = Inr False \<and>
   default_algorithm (cfg_of (ascii ''grep'') True) = ascii ''grep'' \<and>
   reread_on_query (cfg_of (ascii ''grep'') True) \<and>
   search_body (fs_with ''apple'')
     \<lparr>cfg = cfg_of (ascii ''grep'') True, cached_set = None, cached_list = None,
      cached_sorted = None\<rparr> (ascii ''apple'') = Inr False \<and>
   default_algorithm (cfg_of (ascii ''grep'') False) = ascii ''grep'' \<and>
   \<not> reread_on_query (cfg_of (ascii ''grep'') False) \<and>
   preload_body (fs_with ''apple'')
     \<lparr>cfg = cfg_of (ascii ''grep'') False, cached_set = None, cached_list = None,
      cached_sorted = None\<rparr>
     = Inr \<lparr>cfg = cfg_of (ascii ''grep'') False, cached_set = Some {ascii ''apple''},
            cached_list = None, cached_sorted = None\<rparr> \<and>
   mmap_search (fs_with ''apple'') (linuxpath (cfg_of (ascii ''grep'') True)) (ascii ''apple'')
     = Inr False \<and>
   Searcher_search (fs_with ''apple'')
     \<lparr>cfg = cfg_of (ascii ''grep'') True, cached_set = None, cached_list = None,
      cached_sorted = None\<rparr> (ascii ''apple'') = Inr False \<and>
   path_open (fs_with ''apple'' (linuxpath (cfg_of (ascii ''grep'') False))) = Inr ''apple'' \<and>
   init_then_search (fs_with ''apple'') (cfg_of (ascii ''grep'') False) fs_missing
     (ascii ''apple'') = Inr True"
proof -
  let ?fs = "fs_with ''apple''"
  let ?argv = "[ascii ''grep'', ascii ''-x'', ascii ''--'', ascii ''apple'', data_path]"
  let ?sr = "\<lparr>cfg = cfg_of (ascii ''grep'') True, cached_set = None, cached_list = None,
      cached_sorted = None\<rparr>"
  let ?sc = "\<lparr>cfg = cfg_of (ascii ''grep'') False, cached_set = None, cached_list = None,
      cached_sorted = None\<rparr>"
  have h1: "path_exists (?fs data_path)" by (simp add: fs_with_def regular_file_def)
  have h2: "grep_finds ?argv = Exited 0" by (simp add: grep_finds_def)
  have h3: "grep_hangs ?argv = TimedOut" by (simp add: grep_hangs_def)
  have h4: "\<not> path_exists (fs_missing data_path)" by (simp add: fs_missing_def missing_file_def)
  have h5: "default_algorithm (cfg ?sr) = ascii ''grep'' \<and> reread_on_query (cfg ?sr)"
    by (simp add: cfg_of_def)
  have h6: "default_algorithm (cfg ?sc) = ascii ''grep'' \<and> \<not> reread_on_query (cfg ?sc)"
    by (simp add: cfg_of_def)
  have p: "linuxpath (cfg ?sr) = data_path" "linuxpath (cfg ?sc) = data_path"
    by (simp_all add: cfg_of_def)
  have p': "linuxpath (cfg_of (ascii ''grep'') False) = data_path"
    by (simp add: cfg_of_def)
  have l: "load_lines_set ?fs data_path = Inr {ascii ''apple''}"
    by (simp add: load_lines_set_def fs_with_def regular_file_def utf8_decode_def rstrip_def
        ascii_def)
  have a1: "grep_subprocess ?fs grep_finds data_path (ascii ''apple'') = Inr True"
    using grep_subprocess_exit_status [of ?fs data_path grep_finds "ascii ''apple''" 0 ?sr]
      h1 h2 by simp
  have a2: "grep_subprocess ?fs grep_hangs data_path (ascii ''apple'') = Inr False"
    using grep_subprocess_exit_status [of ?fs data_path grep_hangs "ascii ''apple''" 0 ?sr]
      h3 by blast
  have a3: "grep_subprocess fs_missing grep_finds data_path (ascii ''apple'') = Inr False"
    using grep_subprocess_exit_status [of fs_missing data_path grep_finds "ascii ''apple''" 0 ?sr]
      h4 by blast
  have "search_body ?fs ?sr (ascii ''apple'') = mmap_search ?fs (linuxpath (cfg ?sr)) (ascii ''apple'')"
    using grep_subprocess_exit_status [of ?fs data_path grep_finds "ascii ''apple''" 0 ?sr]
      h5 by blast
  then have a4: "search_body ?fs ?sr (ascii ''apple'') = Inr False"
    by (simp only: p mmap_search_apple_no_lf)
  have "preload_body ?fs ?sc
        = (case load_lines_set ?fs (linuxpath (cfg ?sc)) of
             Inl e \<Rightarrow> Inl e
           | Inr ls \<Rightarrow> Inr (?sc\<lparr>cached_set := Some ls\<rparr>))"
    using grep_subprocess_exit_status [of ?fs data_path grep_finds "ascii ''apple''" 0 ?sc]
      h6 by blast
  then have a5: "preload_body ?fs ?sc
     = Inr \<lparr>cfg = cfg_of (ascii ''grep'') False, cached_set = Some {ascii ''apple''},
            cached_list = None, cached_sorted = None\<rparr>"
    by (simp add: p' l)
  from h5 have h5a: "default_algorithm (cfg_of (ascii ''grep'') True) = ascii ''grep''"
    and h5b: "reread_on_query (cfg_of (ascii ''grep'') True)" by simp_all
  from h6 have h6a: "default_algorithm (cfg_of (ascii ''grep'') False) = ascii ''grep''"
    and h6b: "\<not> reread_on_query (cfg_of (ascii ''grep'') False)" by simp_all
  have pr: "linuxpath (cfg_of (ascii ''grep'') True) = data_path"
    by (simp add: cfg_of_def)
  have h7: "mmap_search ?fs (linuxpath (cfg_of (ascii ''grep'') True)) (ascii ''apple'')
              = Inr False"
    by (simp only: pr mmap_search_apple_no_lf)
  then have h7': "mmap_search ?fs (linuxpath (cfg ?sr)) (ascii ''apple'') = Inr False"
    by simp
  have a6: "Searcher_search ?fs ?sr (ascii ''apple'') = Inr False"
    using grep_subprocess_exit_status
            [where fs = ?fs and s = ?sr and q = "ascii ''apple''" and found = False]
      h5 h7' by blast
  have h8: "path_open (?fs (linuxpath (cfg_of (ascii ''grep'') False))) = Inr ''apple''"
    by (simp add: p' fs_with_def regular_file_def)
  have q: "ascii ''apple'' \<in> set (map (rstrip [10]) (readlines (utf8_decode ''apple'')))"
    by (simp add: utf8_decode_def rstrip_def ascii_def)
  have "init_then_search ?fs (cfg_of (ascii ''grep'') False) fs_missing (ascii ''apple'')
          = Inr (ascii ''apple'' \<in> set (map (rstrip [10]) (readlines (utf8_decode ''apple''))))"
    using grep_subprocess_exit_status
            [where c = "cfg_of (ascii ''grep'') False" and ?fs0.0 = ?fs and bs = "''apple''"
               and fs = fs_missing and q = "ascii ''apple''"]
      h6a h6b h8 by blast
  with q have a7: "init_then_search ?fs (cfg_of (ascii ''grep'') False) fs_missing
      (ascii ''apple'') = Inr True"
    by (simp only: )
  from h1 h2 a1 h3 a2 h4 a3 h5a h5b a4 h6a h6b a5 h7 a6 h8 a7 show ?thesis by (intro conjI)
qed


lemma mmap_search_banana_ana:
  "mmap_search (fs_with (''banana'' @ [CHR 0x0A])) data_path (ascii ''ana'') = Inr True"
  by (simp add: mmap_search_def mmap_find_def fs_with_def regular_file_def utf8_encode_def
      utf8_encode_cp_def is_surrogate_def char_of_def bit_0 ascii_def bytes_find_def)

lemma mmap_search_last_line:
  "mmap_search (fs_with (''apple'' @ [CHR 0x0A] @ ''banana'')) data_path (ascii ''banana'')
     = Inr False"
  by (simp add: mmap_search_def mmap_find_def fs_with_def regular_file_def utf8_encode_def
      utf8_encode_cp_def is_surrogate_def char_of_def bit_0 ascii_def bytes_find_def)


text \<open>
  Claim C1 does not hold of the memory-mapped strategy, which \<open>Searcher.search\<close> uses in
  reread mode for the identifier \<open>mmap\<close> (and for every identifier it does not know).
  \<open>mmap_search\<close> looks for the bytes of the query and a line feed anywhere in the file:
  on the file \<open>banana\n\<close> the query \<open>ana\<close>, a suffix of the only line, is found; on the
  file \<open>apple\nbanana\<close> the query \<open>banana\<close>, the last line, without line end, is not.
\<close>

theorem mmap_strategy_not_exact_line:
  "init_then_search (fs_with (''banana'' @ [CHR 0x0A])) (cfg_of (ascii ''mmap'') True)
     (fs_with (''banana'' @ [CHR 0x0A])) (ascii ''ana'') = Inr True \<and>
   load_lines_list (fs_with (''banana'' @ [CHR 0x0A])) data_path = Inr [ascii ''banana''] \<and>
   ascii ''ana'' \<notin> set [ascii ''banana''] \<and>
   init_then_search (fs_with (''apple'' @ [CHR 0x0A] @ ''banana'')) (cfg_of (ascii ''mmap'') True)
     (fs_with (''apple'' @ [CHR 0x0A] @ ''banana'')) (ascii ''banana'') = Inr False \<and>
   load_lines_list (fs_with (''apple'' @ [CHR 0x0A] @ ''banana'')) data_path
     = Inr [ascii ''apple'', ascii ''banana''] \<and>
   ascii ''banana'' \<in> set [ascii ''apple'', ascii ''banana'']"
proof -
  have 1: "init_then_search (fs_with (''banana'' @ [CHR 0x0A])) (cfg_of (ascii ''mmap'') True)
     (fs_with (''banana'' @ [CHR 0x0A])) (ascii ''ana'') = Inr True"
    by (rule reread_fallback_cfg_of [OF _ _ _ mmap_search_banana_ana])
       (simp_all add: ascii_def)
  have 2: "load_lines_list (fs_with (''banana'' @ [CHR 0x0A])) data_path = Inr [ascii ''banana'']"
    by (simp add: load_lines_list_def fs_with_def regular_file_def utf8_decode_def rstrip_def
        ascii_def)
  have 3: "ascii ''ana'' \<notin> set [ascii ''banana'']" by (simp add: ascii_def)
  have 4: "init_then_search (fs_with (''apple'' @ [CHR 0x0A] @ ''banana''))
     (cfg_of (ascii ''mmap'') True)
     (fs_with (''apple'' @ [CHR 0x0A] @ ''banana'')) (ascii ''banana'') = Inr False"
    by (rule reread_fallback_cfg_of [OF _ _ _ mmap_search_last_line])
       (simp_all add: ascii_def)
  have 5: "load_lines_list (fs_with (''apple'' @ [CHR 0x0A] @ ''banana'')) data_path
     = Inr [ascii ''apple'', ascii ''banana'']"
    by (simp add: load_lines_list_def fs_with_def regular_file_def utf8_decode_def rstrip_def
        ascii_def)
  have 6: "ascii ''banana'' \<in> set [ascii ''apple'', ascii ''banana'']" by simp
  from 1 2 3 4 5 6 show ?thesis by (intro conjI)
qed

section \<open>Properties of the startup\<close>

text \<open>
  Claim C2 does not hold of a configuration with TLS enabled and no certificate or key
  path: \<open>wrap_socket_if_needed\<close> raises \<open>RuntimeError\<close>, which is none of the classes
  \<open>start\<close> handles, so it leaves \<open>start\<close> (after \<open>bind\<close> and \<open>listen\<close>, before any
  \<open>accept\<close>). The other failures of the TLS setup are handled: with a certificate file
  that cannot be found, \<open>start\<close> returns without accepting. When the setup succeeds, the
  context is built and the socket wrapped after \<open>listen\<close> and before the first \<open>accept\<close>.
\<close>

theorem start_missing_cert_raises:
  "start env_ok (cfg_tls None None) = ([Bind, Listen], Some RuntimeError) \<and>
   start env_cert_not_found (cfg_tls (Some (ascii ''cert.pem'')) (Some (ascii ''key.pem'')))
     = ([Bind, Listen, NewContext, LoadCertChain (ascii ''cert.pem'') (ascii ''key.pem'')], None) \<and>
   start env_ok (cfg_tls (Some (ascii ''cert.pem'')) (Some (ascii ''key.pem'')))
     = ([Bind, Listen, NewContext, LoadCertChain (ascii ''cert.pem'') (ascii ''key.pem''),
         DisableLegacy, WrapSocket, Accept, StartHandler, CloseListener], None)"
proof -
  have 1: "start env_ok (cfg_tls None None) = ([Bind, Listen], Some RuntimeError)"
    by (simp add: start_def start_setup_def wrap_socket_if_needed_def py_not_def env_ok_def
        cfg_tls_def cfg_of_def)
  have ne: "ascii ''cert.pem'' \<noteq> []" "ascii ''key.pem'' \<noteq> []" by (simp_all add: ascii_def)
  have 2: "start env_cert_not_found (cfg_tls (Some (ascii ''cert.pem'')) (Some (ascii ''key.pem'')))
     = ([Bind, Listen, NewContext, LoadCertChain (ascii ''cert.pem'') (ascii ''key.pem'')], None)"
    using ne
    by (simp add: start_def start_setup_def wrap_socket_if_needed_def py_not_def
        create_server_ssl_context_def env_cert_not_found_def env_ok_def cfg_tls_def cfg_of_def)
  have 3: "start env_ok (cfg_tls (Some (ascii ''cert.pem'')) (Some (ascii ''key.pem'')))
     = ([Bind, Listen, NewContext, LoadCertChain (ascii ''cert.pem'') (ascii ''key.pem''),
         DisableLegacy, WrapSocket, Accept, StartHandler, CloseListener], None)"
    using ne
    by (simp add: start_def start_setup_def wrap_socket_if_needed_def py_not_def
        create_server_ssl_context_def env_ok_def cfg_tls_def cfg_of_def)
  from 1 2 3 show ?thesis by (intro conjI)
qed


section \<open>Properties of the client\<close>

lemma client_sent_append: "client_sent (xs @ ys) = client_sent xs @ client_sent ys"
  by (induction xs rule: client_sent.induct) simp_all

lemma query_body_oversized:
  assumes "utf8_encode s = Inr payload" and "length payload > DEFAULT_MAX"
  shows "client_sent (fst (query_body env h p s)) = []"
    and "sock_connect env h p = None \<Longrightarrow> snd (query_body env h p s) = Inl ValueError"
    and "\<exists>e. snd (query_body env h p s) = Inl e"
  using assms by (simp_all add: query_body_def split: option.splits)

lemma fst_query_string:
  "fst (query_string env h p s use_ssl) = []
   \<or> fst (query_string env h p s use_ssl) = fst (query_body env h p s) @ [ClientClose]"
  by (simp add: query_string_def Let_def case_prod_beta split: option.splits)

lemma utf8_encode_oversized:
  "utf8_encode (replicate 1025 97) = Inr (replicate 1025 (CHR ''a''))"
  by (simp add: utf8_encode_def utf8_encode_cp_def is_surrogate_def char_of_def bit_0
      list_ex_iff)

text \<open>
  Claim C9, as stated, fails: the size check stands behind \<open>connect\<close>. When the server
  refuses the connection, the call of an oversized query fails with
  \<open>ConnectionRefusedError\<close>, not with the oversized-payload error; and with a port
  outside \<open>0..65535\<close>, \<open>connect\<close> raises \<open>OverflowError\<close>, which is none of the classes
  \<open>query_string\<close> handles and leaves it.
\<close>

theorem query_string_oversized_counterexample:
  "utf8_encode (replicate 1025 97) = Inr (replicate 1025 (CHR ''a'')) \<and>
   length (replicate 1025 (CHR ''a'')) > DEFAULT_MAX \<and>
   snd (query_body client_env_refused (ascii ''127.0.0.1'') 44445 (replicate 1025 97))
     = Inl ConnectionRefusedError \<and>
   query_string (client_env_ok STRING_EXISTS) (ascii ''127.0.0.1'') 70000 (replicate 1025 97) False
     = ([Connect (ascii ''127.0.0.1'') 70000, ClientClose], Inl OverflowError)"
proof -
  have 1: "length (replicate 1025 (CHR ''a'')) > DEFAULT_MAX" by (simp add: DEFAULT_MAX_def)
  have 2: "snd (query_body client_env_refused (ascii ''127.0.0.1'') 44445 (replicate 1025 97))
     = Inl ConnectionRefusedError"
    by (simp add: query_body_def sock_connect_def client_env_refused_def client_env_ok_def)
  have 3: "query_string (client_env_ok STRING_EXISTS) (ascii ''127.0.0.1'') 70000
       (replicate 1025 97) False
     = ([Connect (ascii ''127.0.0.1'') 70000, ClientClose], Inl OverflowError)"
    by (simp add: query_string_def query_body_def sock_connect_def client_env_ok_def)
  from utf8_encode_oversized 1 2 3 show ?thesis by (intro conjI)
qed

text \<open>
  Claim C9, amended. When the encoded query is longer than the maximum payload,
  \<open>query_string\<close> hands nothing to \<open>sendall\<close>, whatever the network answers, and returns
  nothing but \<open>(False, 0.0, b"")\<close>; and when the socket is set up (the TLS wrapping, if
  asked for, and \<open>connect\<close> succeed), the size check raises \<open>ValueError\<close> and the call
  returns \<open>(False, 0.0, b"")\<close>.
\<close>

theorem query_string_oversized:
  assumes "utf8_encode s = Inr payload" and "length payload > DEFAULT_MAX"
  shows "client_sent (fst (query_string env h p s use_ssl)) = [] \<and>
         (\<forall>v. snd (query_string env h p s use_ssl) = Inr v \<longrightarrow> v = (False, 0, [])) \<and>
         ((use_ssl \<longrightarrow> tls_wrap_result env = None) \<and> sock_connect env h p = None \<longrightarrow>
            snd (query_body env h p s) = Inl ValueError \<and>
            snd (query_string env h p s use_ssl) = Inr (False, 0, []))"
proof -
  have 1: "client_sent (fst (query_string env h p s use_ssl)) = []"
    using fst_query_string [of env h p s use_ssl] query_body_oversized(1) [OF assms, of env h p]
    by (auto simp: client_sent_append)
  obtain e where e: "snd (query_body env h p s) = Inl e"
    using query_body_oversized(3) [OF assms, of env h p] by blast
  have 2: "\<forall>v. snd (query_string env h p s use_ssl) = Inr v \<longrightarrow> v = (False, 0, [])"
    using e
    by (auto simp: query_string_def Let_def case_prod_beta split: option.splits if_splits)
  have 3: "snd (query_body env h p s) = Inl ValueError \<and>
           snd (query_string env h p s use_ssl) = Inr (False, 0, [])"
    if a: "(use_ssl \<longrightarrow> tls_wrap_result env = None) \<and> sock_connect env h p = None"
  proof -
    from a have b: "snd (query_body env h p s) = Inl ValueError"
      using query_body_oversized(2) [OF assms, of env h p] by simp
    from a have w: "(if use_ssl then tls_wrap_result env else None) = None" by simp
    have "snd (query_string env h p s use_ssl) = Inr (False, 0, [])"
      unfolding query_string_def w
      using b by (simp add: Let_def case_prod_beta split: option.splits)
    with b show ?thesis by simp
  qed
  from 1 2 3 show ?thesis by blast
qed

theorem query_string_oversized_witness:
  "utf8_encode (replicate 1025 97) = Inr (replicate 1025 (CHR ''a'')) \<and>
   length (replicate 1025 (CHR ''a'')) > DEFAULT_MAX \<and>
   tls_wrap_result (client_env_ok STRING_EXISTS) = None \<and>
   sock_connect (client_env_ok STRING_EXISTS) (ascii ''127.0.0.1'') 44445 = None \<and>
   query_string (client_env_ok STRING_EXISTS) (ascii ''127.0.0.1'') 44445 (replicate 1025 97) True
     = ([Connect (ascii ''127.0.0.1'') 44445, ClientClose], Inr (False, 0, []))"
proof -
  let ?env = "client_env_ok STRING_EXISTS"
  let ?h = "ascii ''127.0.0.1''"
  note h1 = utf8_encode_oversized
  have h2: "length (replicate 1025 (CHR ''a'')) > DEFAULT_MAX" by (simp add: DEFAULT_MAX_def)
  have h3: "tls_wrap_result ?env = None" by (simp add: client_env_ok_def)
  have h4: "sock_connect ?env ?h 44445 = None"
    by (simp add: sock_connect_def client_env_ok_def)
  have r: "snd (query_string ?env ?h 44445 (replicate 1025 97) True) = Inr (False, 0, [])"
    using query_string_oversized [OF h1 h2, of ?env ?h 44445 True] h3 h4 by blast
  have "fst (query_string ?env ?h 44445 (replicate 1025 97) True)
          = fst (query_body ?env ?h 44445 (replicate 1025 97)) @ [ClientClose]"
    using h3 by (simp add: query_string_def Let_def case_prod_beta client_env_ok_def)
  moreover have "fst (query_body ?env ?h 44445 (replicate 1025 97)) = [Connect ?h 44445]"
    using h1 h2 h4 by (simp add: query_body_def)
  ultimately have f: "fst (query_string ?env ?h 44445 (replicate 1025 97) True)
      = [Connect ?h 44445, ClientClose]"
    by simp
  have "query_string ?env ?h 44445 (replicate 1025 97) True
      = ([Connect ?h 44445, ClientClose], Inr (False, 0, []))"
    using f r by (metis prod.collapse)
  with h1 h2 h3 h4 show ?thesis by (intro conjI)
qed

end
